theory Spec2Isabelle
  imports Complex_Main "HOL-Library.Word" "HOL-Library.Log_Nat"
begin

unbundle bit_operations_syntax

section \<open>JavaScript numbers\<close>

text \<open>
  A JavaScript number is an IEEE-754 double. The finite doubles are rationals, so a
  number is modelled as a rational or one of the three special values. The result of an
  arithmetic operation on finite operands is the exact rational result rounded to the
  nearest double, ties to the even significand (\<open>rnd\<close>); a result of magnitude
  \<open>2^1024\<close> or more after rounding overflows to an infinity, and results below
  \<open>2^-1022\<close> are rounded on the subnormal grid of spacing \<open>2^-1074\<close>.
  The sign of zero is not modelled: \<open>-0\<close> and \<open>+0\<close> are both \<open>Fin 0\<close>,
  and dividing a non-zero number by zero gives the infinity of the dividend's sign.
\<close>

datatype number = Fin rat | PInf | NInf | NaN

text \<open>\<open>ilog2 x\<close> is the binary exponent of a positive rational: \<open>2^e \<le> x < 2^(e+1)\<close>.\<close>

definition ilog2 :: "rat \<Rightarrow> int" where
  "ilog2 x = (if 1 \<le> x then bitlen \<lfloor>x\<rfloor> - 1 else - bitlen (\<lceil>1 / x\<rceil> - 1))"

definition round_half_even :: "rat \<Rightarrow> int" where
  "round_half_even y =
     (let f = \<lfloor>y\<rfloor>; d = y - of_int f
      in if d < 1 / 2 then f else if 1 / 2 < d then f + 1 else if even f then f else f + 1)"

text \<open>The exponent of the grid a non-zero rational is rounded on: its own binary exponent,
  or \<open>-1022\<close> in the subnormal range.\<close>

definition rexp :: "rat \<Rightarrow> int" where
  "rexp x = max (ilog2 \<bar>x\<bar>) (- 1022)"

definition rnd :: "rat \<Rightarrow> number" where
  "rnd x =
     (if x = 0 then Fin 0
      else let e = rexp x;
               u = 2 powi (e - 52);
               y = of_int (round_half_even (x / u)) * u
           in if 2 ^ 1024 \<le> y then PInf else if y \<le> - (2 ^ 1024) then NInf else Fin y)"

fun jneg :: "number \<Rightarrow> number" where
  "jneg (Fin a) = Fin (- a)"
| "jneg PInf = NInf"
| "jneg NInf = PInf"
| "jneg NaN = NaN"

fun jadd :: "number \<Rightarrow> number \<Rightarrow> number" where
  "jadd NaN _ = NaN"
| "jadd _ NaN = NaN"
| "jadd PInf NInf = NaN"
| "jadd NInf PInf = NaN"
| "jadd PInf _ = PInf"
| "jadd NInf _ = NInf"
| "jadd _ PInf = PInf"
| "jadd _ NInf = NInf"
| "jadd (Fin a) (Fin b) = rnd (a + b)"

definition jsub :: "number \<Rightarrow> number \<Rightarrow> number" where
  "jsub a b = jadd a (jneg b)"

text \<open>The sign of a number, as far as products and quotients with an infinity need it.\<close>

fun is_negative :: "number \<Rightarrow> bool" where
  "is_negative (Fin a) = (a < 0)"
| "is_negative NInf = True"
| "is_negative _ = False"

definition signed_inf :: "bool \<Rightarrow> number" where
  "signed_inf neg = (if neg then NInf else PInf)"

fun is_infinite :: "number \<Rightarrow> bool" where
  "is_infinite PInf = True"
| "is_infinite NInf = True"
| "is_infinite _ = False"

fun jmul :: "number \<Rightarrow> number \<Rightarrow> number" where
  "jmul NaN _ = NaN"
| "jmul _ NaN = NaN"
| "jmul (Fin a) (Fin b) = rnd (a * b)"
| "jmul a b =
     (if a = Fin 0 \<or> b = Fin 0 then NaN
      else signed_inf (is_negative a \<noteq> is_negative b))"

fun jdiv :: "number \<Rightarrow> number \<Rightarrow> number" where
  "jdiv NaN _ = NaN"
| "jdiv _ NaN = NaN"
| "jdiv (Fin a) (Fin b) =
     (if b = 0 then (if a = 0 then NaN else signed_inf (a < 0)) else rnd (a / b))"
| "jdiv (Fin a) _ = Fin 0"
| "jdiv a b =
     (if is_infinite b then NaN else signed_inf (is_negative a \<noteq> is_negative b))"

text \<open>\<open>Math.floor\<close> and \<open>Math.round\<close> (ties towards plus infinity) are exact.\<close>

fun jfloor :: "number \<Rightarrow> number" where
  "jfloor (Fin a) = Fin (of_int \<lfloor>a\<rfloor>)"
| "jfloor x = x"

fun jround :: "number \<Rightarrow> number" where
  "jround (Fin a) = Fin (of_int \<lfloor>a + 1 / 2\<rfloor>)"
| "jround x = x"

fun isFinite :: "number \<Rightarrow> bool" where
  "isFinite (Fin a) = True"
| "isFinite _ = False"

text \<open>\<open>===\<close> on numbers: \<open>NaN\<close> equals nothing, itself included.\<close>

definition strict_eq :: "number \<Rightarrow> number \<Rightarrow> bool" where
  "strict_eq a b = (a \<noteq> NaN \<and> a = b)"

text \<open>\<open>ToUint32\<close> (and \<open>ToInt32\<close>, which yields the same 32 bits): truncate towards
  zero and reduce modulo \<open>2^32\<close>; the special values give 0.\<close>

fun toUint32 :: "number \<Rightarrow> 32 word" where
  "toUint32 (Fin a) = word_of_int (if 0 \<le> a then \<lfloor>a\<rfloor> else \<lceil>a\<rceil>)"
| "toUint32 _ = 0"

section \<open>The seeded generator\<close>

text \<open>
  \<^verbatim>\<open>
  function mulberry32(a) {
    return function () {
      let t = (a += 0x6d2b79f5);
      t = Math.imul(t ^ (t >>> 15), t | 1);
      t ^= t + Math.imul(t ^ (t >>> 7), t | 61);
      return ((t ^ (t >>> 14)) >>> 0) / 4294967296;
    };
  }
  \<close>
  The closure owns the variable \<open>a\<close>, a JavaScript number that the source never reduces
  to 32 bits: \<open>a += 0x6d2b79f5\<close> is a double addition. The generator is modelled by the
  value of \<open>a\<close>, threaded through the calls. The bitwise operators and \<open>Math.imul\<close>
  work on the 32-bit image of their operands, here a \<open>32 word\<close>; the sum
  \<open>t + Math.imul(..)\<close> of two 32-bit integers is exact as a double and is reduced
  modulo \<open>2^32\<close> by \<open>^=\<close>, which is the addition of words.
\<close>

type_synonym rng = number

definition mulberry32 :: "number \<Rightarrow> rng" where
  "mulberry32 a = a"

definition mix :: "32 word \<Rightarrow> 32 word" where
  "mix t0 =
     (let t1 = (t0 XOR drop_bit 15 t0) * (t0 OR 1);
          t2 = t1 XOR (t1 + (t1 XOR drop_bit 7 t1) * (t1 OR 61))
      in t2 XOR drop_bit 14 t2)"

definition rand :: "rng \<Rightarrow> number \<times> rng" where
  "rand a =
     (let a' = jadd a (Fin 1831565813);
          w = mix (toUint32 a')
      in (jdiv (Fin (of_nat (unat w))) (Fin 4294967296), a'))"

text \<open>The generator after \<open>n\<close> calls, and the value the \<open>n\<close>-th call returns (counting
  from 0).\<close>

fun rng_after :: "nat \<Rightarrow> rng \<Rightarrow> rng" where
  "rng_after 0 a = a"
| "rng_after (Suc n) a = rng_after n (snd (rand a))"

definition draw :: "number \<Rightarrow> nat \<Rightarrow> number" where
  "draw seed n = fst (rand (rng_after n (mulberry32 seed)))"

text \<open>
  The generator as the specification words it: the state is a 32-bit unsigned word,
  advanced by \<open>0x6D2B79F5\<close> modulo \<open>2^32\<close> at each call, and the output is the mixed
  word divided by \<open>2^32\<close>.
\<close>

definition spec_word :: "32 word \<Rightarrow> nat \<Rightarrow> 32 word" where
  "spec_word seed n = mix (seed + (of_nat n + 1) * 1831565813)"

definition spec_draw :: "32 word \<Rightarrow> nat \<Rightarrow> rat" where
  "spec_draw seed n = of_nat (unat (spec_word seed n)) / 2 ^ 32"

section \<open>Problems and bindings\<close>

text \<open>
  The problem shape of the source. The \<open>images\<close> of a problem play no part in the
  generation of a variant and are left out. The answer expression is a string that the
  source hands to the host's \<open>Function\<close> constructor; the host's parser is not part of the
  repository, so a problem carries its expression as the syntax tree the host builds from
  it, and \<open>Malformed\<close> stands for a string that the host rejects with a \<open>SyntaxError\<close>.
  The expressions are those of a numeric fragment: number literals, identifiers bound in
  the scope, the arithmetic operators, \<open>Math.random()\<close> and calls of one-argument
  functions of \<open>Math\<close>; \<open>Text s\<close> is a string literal. An identifier stands for a
  bound parameter or for a name that nothing defines: the names of the host's global
  object (\<open>NaN\<close>, \<open>Infinity\<close> and the like) are not identifiers of the fragment, and
  \<open>Math\<close> occurs only as the receiver of a call.
\<close>

datatype match_mode = Numeric | StringMatch

record select_rule =
  match :: match_mode
  rounding :: "int option"

record param =
  name :: string
  minv :: number
  maxv :: number
  stepv :: "number option"

datatype expr =
    Num number
  | Var string
  | Neg expr
  | Add expr expr
  | Sub expr expr
  | Mul expr expr
  | Div expr expr
  | MathRandom
  | MathCall string expr

datatype source = Arith expr | Text string | Malformed

record problem =
  pid :: string
  stem :: string
  params :: "param list"
  options :: "string list"
  answerExpr :: source
  selectRule :: "select_rule option"

text \<open>
  Bindings are a plain object: a map from the names of its own properties to numbers.
  Reading a property that the object does not own falls through to \<open>Object.prototype\<close>,
  and assigning to \<open>__proto__\<close> a number creates no own property.
\<close>

type_synonym bindings = "string \<rightharpoonup> number"

datatype jsval = VNum number | VStr string | VUndef | VFun string | VObj

definition setOwn :: "bindings \<Rightarrow> string \<Rightarrow> number \<Rightarrow> bindings" where
  "setOwn out n v = (if n = ''__proto__'' then out else out(n \<mapsto> v))"

definition prototypeFunctions :: "string list" where
  "prototypeFunctions =
     [''hasOwnProperty'', ''isPrototypeOf'', ''propertyIsEnumerable'', ''toLocaleString'',
      ''toString'', ''valueOf'', ''__defineGetter__'', ''__defineSetter__'',
      ''__lookupGetter__'', ''__lookupSetter__'']"

definition getProp :: "bindings \<Rightarrow> string \<Rightarrow> jsval" where
  "getProp b n =
     (case b n of
        Some v \<Rightarrow> VNum v
      | None \<Rightarrow>
          if n = ''constructor'' then VFun ''Object''
          else if n \<in> set prototypeFunctions then VFun n
          else if n = ''__proto__'' then VObj
          else VUndef)"

section \<open>Sampling parameters\<close>

text \<open>
  \<^verbatim>\<open>
  function pickParam(rand, min, max, step = 1) {
    const nSteps = Math.floor((max - min) / step) + 1;
    const k = Math.floor(rand() * nSteps);
    return min + k * step;
  }
  function generateBindings(problem, seed) {
    const rand = mulberry32(seed);
    const out = {};
    for (const p of problem.params) out[p.name] = pickParam(rand, p.min, p.max, p.step);
    return out;
  }
  \<close>
  The generator is passed in and comes back advanced by the one call.
\<close>

definition pickParam :: "rng \<Rightarrow> number \<Rightarrow> number \<Rightarrow> number option \<Rightarrow> number \<times> rng" where
  "pickParam rand0 mn mx stepo =
     (let step = (case stepo of None \<Rightarrow> Fin 1 | Some s \<Rightarrow> s);
          nSteps = jadd (jfloor (jdiv (jsub mx mn) step)) (Fin 1);
          (r, rand1) = rand rand0;
          k = jfloor (jmul r nSteps)
      in (jadd mn (jmul k step), rand1))"

fun bindParams :: "param list \<Rightarrow> rng \<Rightarrow> bindings \<Rightarrow> bindings" where
  "bindParams [] rand0 out = out"
| "bindParams (p # ps) rand0 out =
     (let (v, rand1) = pickParam rand0 (minv p) (maxv p) (stepv p)
      in bindParams ps rand1 (setOwn out (name p) v))"

definition generateBindings :: "problem \<Rightarrow> number \<Rightarrow> bindings" where
  "generateBindings p seed = bindParams (params p) (mulberry32 seed) Map.empty"

section \<open>Strings and the host\<close>

text \<open>
  A string is the list of its code units, here those below 256. The classes are those of
  the regular expressions of the source: \<open>\<bsol>s\<close> (which is also what \<open>trim\<close> removes),
  \<open>\<bsol>w\<close> and \<open>\<bsol>d\<close>.
\<close>

definition is_space :: "char \<Rightarrow> bool" where
  "is_space c = ((of_char c :: nat) \<in> {9, 10, 11, 12, 13, 32, 160})"

definition is_digit :: "char \<Rightarrow> bool" where
  "is_digit c = (48 \<le> (of_char c :: nat) \<and> (of_char c :: nat) \<le> 57)"

definition is_word :: "char \<Rightarrow> bool" where
  "is_word c =
     (let n = (of_char c :: nat)
      in (48 \<le> n \<and> n \<le> 57) \<or> (65 \<le> n \<and> n \<le> 90) \<or> n = 95 \<or> (97 \<le> n \<and> n \<le> 122))"

definition trim :: "string \<Rightarrow> string" where
  "trim s = rev (dropWhile is_space (rev (dropWhile is_space s)))"

text \<open>
  What the host supplies and the repository only calls: the text of a number that is not
  an integer below \<open>10^21\<close> (\<open>Number::toString\<close> prints the shortest decimal that
  reads back as the same double), and the conversion of a string to a number.
\<close>

record host =
  numText :: "rat \<Rightarrow> string"
  strNumber :: "string \<Rightarrow> number"

fun digits :: "nat \<Rightarrow> string" where
  "digits n =
     (if n < 10 then [''0123456789'' ! n] else digits (n div 10) @ [''0123456789'' ! (n mod 10)])"

declare digits.simps [simp del]

fun numberToString :: "host \<Rightarrow> number \<Rightarrow> string" where
  "numberToString h NaN = ''NaN''"
| "numberToString h PInf = ''Infinity''"
| "numberToString h NInf = ''-Infinity''"
| "numberToString h (Fin x) =
     (if x = of_int \<lfloor>x\<rfloor> \<and> \<bar>x\<bar> < 10 ^ 21
      then (if x < 0 then ''-'' else []) @ digits (nat \<bar>\<lfloor>x\<rfloor>\<bar>)
      else numText h x)"

text \<open>\<open>String(v)\<close> and \<open>Number(v)\<close>. The text of a built-in function is the one that
  V8 prints; other engines lay the same words out on several lines.\<close>

fun toString :: "host \<Rightarrow> jsval \<Rightarrow> string" where
  "toString h (VNum x) = numberToString h x"
| "toString h (VStr s) = s"
| "toString h VUndef = ''undefined''"
| "toString h (VFun f) = ''function '' @ f @ ''() { [native code] }''"
| "toString h VObj = ''[object Object]''"

fun toNumber :: "host \<Rightarrow> jsval \<Rightarrow> number" where
  "toNumber h (VNum x) = x"
| "toNumber h (VStr s) = strNumber h s"
| "toNumber h _ = NaN"

section \<open>Rendering a template\<close>

text \<open>
  \<^verbatim>\<open>
  function renderTemplate(stem, bindings) {
    return stem.replace(/\{\{\s*(\w+)\s*\}\}/g, (_, name) => String(bindings[name] ?? ""));
  }
  \<close>
  \<open>matchPlaceholder s\<close> matches the regular expression at the start of \<open>s\<close> and gives
  the captured name and the length of the match. The three classes \<open>\<bsol>s\<close>, \<open>\<bsol>w\<close>
  and \<open>}\<close> are disjoint, so the greedy match never backtracks. \<open>replaceAll\<close> scans
  from left to right as the global replace does: at a match it emits the substitute and
  skips the matched characters, elsewhere it copies one character.
\<close>

definition matchPlaceholder :: "string \<Rightarrow> (string \<times> nat) option" where
  "matchPlaceholder s =
     (if take 2 s = ''{{'' then
        let s1 = dropWhile is_space (drop 2 s);
            nm = takeWhile is_word s1;
            s2 = dropWhile is_space (dropWhile is_word s1)
        in if nm \<noteq> [] \<and> take 2 s2 = ''}}'' then Some (nm, length s - length s2 + 2) else None
      else None)"

definition substitute :: "host \<Rightarrow> bindings \<Rightarrow> string \<Rightarrow> string" where
  "substitute h b nm =
     toString h (case getProp b nm of VUndef \<Rightarrow> VStr [] | v \<Rightarrow> v)"

fun replaceAll :: "host \<Rightarrow> bindings \<Rightarrow> nat \<Rightarrow> string \<Rightarrow> string" where
  "replaceAll h b skip [] = []"
| "replaceAll h b (Suc skip) (c # cs) = replaceAll h b skip cs"
| "replaceAll h b 0 (c # cs) =
     (case matchPlaceholder (c # cs) of
        Some (nm, len) \<Rightarrow> substitute h b nm @ replaceAll h b (len - 1) cs
      | None \<Rightarrow> c # replaceAll h b 0 cs)"

definition renderTemplate :: "host \<Rightarrow> string \<Rightarrow> bindings \<Rightarrow> string" where
  "renderTemplate h stem0 b = replaceAll h b 0 stem0"

section \<open>Matching the answer to an option\<close>

text \<open>
  \<^verbatim>\<open>
  function roundTo(x, d = 0) {
    const p = Math.pow(10, d);
    return Math.round(x * p) / p;
  }
  function numericFromOption(opt) {
    const m = String(opt).match(/-?\d+(?:\.\d+)?/);
    return m ? parseFloat(m[0]) : NaN;
  }
  \<close>
  The number of decimals is an integer, and \<open>Math.pow(10, d)\<close> is taken to be the double
  nearest to the power of ten. \<open>matchNumber s\<close> matches the regular expression at the
  start of \<open>s\<close> and gives the sign, the integer digits and the fraction digits of the
  token; \<open>firstNumber\<close> finds the leftmost match. \<open>parseFloat\<close> of such a token is the
  double nearest to its decimal value.
\<close>

definition roundTo :: "number \<Rightarrow> int \<Rightarrow> number" where
  "roundTo x d = (let p = rnd (10 powi d) in jdiv (jround (jmul x p)) p)"

definition matchDigits :: "string \<Rightarrow> (string \<times> string) option" where
  "matchDigits s =
     (let ds = takeWhile is_digit s; s1 = dropWhile is_digit s
      in if ds = [] then None
         else (case s1 of
                 c # s2 \<Rightarrow>
                   if c = CHR ''.'' \<and> takeWhile is_digit s2 \<noteq> []
                   then Some (ds, takeWhile is_digit s2) else Some (ds, [])
               | [] \<Rightarrow> Some (ds, [])))"

definition matchNumber :: "string \<Rightarrow> (bool \<times> string \<times> string) option" where
  "matchNumber s =
     (case s of
        [] \<Rightarrow> None
      | c # s1 \<Rightarrow>
          (case (if c = CHR ''-'' then matchDigits s1 else None) of
             Some t \<Rightarrow> Some (True, t)
           | None \<Rightarrow> (case matchDigits s of Some t \<Rightarrow> Some (False, t) | None \<Rightarrow> None)))"

fun firstNumber :: "string \<Rightarrow> (bool \<times> string \<times> string) option" where
  "firstNumber [] = None"
| "firstNumber (c # cs) =
     (case matchNumber (c # cs) of Some t \<Rightarrow> Some t | None \<Rightarrow> firstNumber cs)"

definition digitsValue :: "string \<Rightarrow> nat" where
  "digitsValue ds = foldl (\<lambda>a c. 10 * a + (of_char c - 48)) 0 ds"

definition parseFloat :: "bool \<times> string \<times> string \<Rightarrow> number" where
  "parseFloat t =
     (case t of (neg, ds, fs) \<Rightarrow>
        let v = of_nat (digitsValue ds) + of_nat (digitsValue fs) / 10 ^ length fs
        in rnd (if neg then - v else v))"

definition numericFromOption :: "string \<Rightarrow> number" where
  "numericFromOption opt = (case firstNumber opt of Some t \<Rightarrow> parseFloat t | None \<Rightarrow> NaN)"

text \<open>
  The second half of \<open>chooseCorrectIndex\<close>, from the evaluated answer on:
  \<^verbatim>\<open>
  if (problem.selectRule?.match === "numeric") {
    const r = problem.selectRule.rounding ?? 2;
    const target = roundTo(Number(answer), r);
    let bestIdx = -1;
    for (let i = 0; i < problem.options.length; i++) {
      const v = numericFromOption(problem.options[i]);
      if (!Number.isFinite(v)) continue;
      if (roundTo(v, r) === target) { bestIdx = i; break; }
    }
    return { index: bestIdx, numericAnswer: target };
  }
  const idx = problem.options.findIndex((o) => String(o).trim() === String(answer).trim());
  return { index: idx, numericAnswer: undefined };
  \<close>
\<close>

record choice =
  index :: int
  numericAnswer :: "number option"

definition numericMatch :: "int \<Rightarrow> number \<Rightarrow> string \<Rightarrow> bool" where
  "numericMatch r target opt =
     (let v = numericFromOption opt in isFinite v \<and> strict_eq (roundTo v r) target)"

definition stringMatch :: "host \<Rightarrow> jsval \<Rightarrow> string \<Rightarrow> bool" where
  "stringMatch h answer opt = (trim opt = trim (toString h answer))"

fun findIndex :: "(string \<Rightarrow> bool) \<Rightarrow> string list \<Rightarrow> nat \<Rightarrow> int" where
  "findIndex P [] i = - 1"
| "findIndex P (x # xs) i = (if P x then int i else findIndex P xs (Suc i))"

definition matchOption :: "host \<Rightarrow> problem \<Rightarrow> jsval \<Rightarrow> choice" where
  "matchOption h p answer =
     (case selectRule p of
        Some rule \<Rightarrow>
          (case match rule of
             Numeric \<Rightarrow>
               let r = (case rounding rule of Some d \<Rightarrow> d | None \<Rightarrow> 2);
                   target = roundTo (toNumber h answer) r
               in \<lparr>index = findIndex (numericMatch r target) (options p) 0,
                    numericAnswer = Some target\<rparr>
           | StringMatch \<Rightarrow>
               \<lparr>index = findIndex (stringMatch h answer) (options p) 0, numericAnswer = None\<rparr>)
      | None \<Rightarrow>
          \<lparr>index = findIndex (stringMatch h answer) (options p) 0, numericAnswer = None\<rparr>)"

section \<open>Evaluating the answer expression\<close>

text \<open>
  \<^verbatim>\<open>
  const scope = { ...bindings, Math };
  const answer = Function(...Object.keys(scope), `return (${problem.answerExpr});`)
                   (...Object.values(scope));
  \<close>
  The host builds a function from the string and calls it. Building fails with a
  \<open>SyntaxError\<close>; the call raises a \<open>ReferenceError\<close> at an identifier that the scope
  does not bind and a \<open>TypeError\<close> at a call of something that is not a function.
  Arithmetic raises nothing: a division by zero gives an infinity or \<open>NaN\<close>.
  \<open>Math.random()\<close> reads the host's own generator, which is part of the ambient state
  of the host (\<open>world\<close>) and not of the arguments. Of the functions of \<open>Math\<close> the
  fragment has the four whose results are exact, \<open>abs\<close>, \<open>floor\<close>, \<open>round\<close> and
  \<open>ceil\<close>; any other name in a call stands for a property that \<open>Math\<close> does not have.
\<close>

datatype error = SyntaxError | ReferenceError string | TypeError string

record world =
  entropy :: "nat \<Rightarrow> rat"
  drawn :: nat

definition mathFunction :: "string \<Rightarrow> (number \<Rightarrow> number) option" where
  "mathFunction f =
     (if f = ''abs'' then Some (\<lambda>x. if is_negative x then jneg x else x)
      else if f = ''floor'' then Some jfloor
      else if f = ''round'' then Some jround
      else if f = ''ceil'' then Some (\<lambda>x. jneg (jfloor (jneg x)))
      else None)"

fun evalExpr :: "bindings \<Rightarrow> expr \<Rightarrow> world \<Rightarrow> (error + number) \<times> world" where
  "evalExpr b (Num x) w = (Inr x, w)"
| "evalExpr b (Var x) w =
     (case b x of Some v \<Rightarrow> (Inr v, w) | None \<Rightarrow> (Inl (ReferenceError x), w))"
| "evalExpr b (Neg e) w =
     (case evalExpr b e w of
        (Inl err, w1) \<Rightarrow> (Inl err, w1)
      | (Inr v, w1) \<Rightarrow> (Inr (jneg v), w1))"
| "evalExpr b (Add e1 e2) w =
     (case evalExpr b e1 w of
        (Inl err, w1) \<Rightarrow> (Inl err, w1)
      | (Inr v1, w1) \<Rightarrow>
          (case evalExpr b e2 w1 of
             (Inl err, w2) \<Rightarrow> (Inl err, w2)
           | (Inr v2, w2) \<Rightarrow> (Inr (jadd v1 v2), w2)))"
| "evalExpr b (Sub e1 e2) w =
     (case evalExpr b e1 w of
        (Inl err, w1) \<Rightarrow> (Inl err, w1)
      | (Inr v1, w1) \<Rightarrow>
          (case evalExpr b e2 w1 of
             (Inl err, w2) \<Rightarrow> (Inl err, w2)
           | (Inr v2, w2) \<Rightarrow> (Inr (jsub v1 v2), w2)))"
| "evalExpr b (Mul e1 e2) w =
     (case evalExpr b e1 w of
        (Inl err, w1) \<Rightarrow> (Inl err, w1)
      | (Inr v1, w1) \<Rightarrow>
          (case evalExpr b e2 w1 of
             (Inl err, w2) \<Rightarrow> (Inl err, w2)
           | (Inr v2, w2) \<Rightarrow> (Inr (jmul v1 v2), w2)))"
| "evalExpr b (Div e1 e2) w =
     (case evalExpr b e1 w of
        (Inl err, w1) \<Rightarrow> (Inl err, w1)
      | (Inr v1, w1) \<Rightarrow>
          (case evalExpr b e2 w1 of
             (Inl err, w2) \<Rightarrow> (Inl err, w2)
           | (Inr v2, w2) \<Rightarrow> (Inr (jdiv v1 v2), w2)))"
| "evalExpr b MathRandom w = (Inr (Fin (entropy w (drawn w))), w\<lparr>drawn := Suc (drawn w)\<rparr>)"
| "evalExpr b (MathCall f e) w =
     (case evalExpr b e w of
        (Inl err, w1) \<Rightarrow> (Inl err, w1)
      | (Inr v, w1) \<Rightarrow>
          (case mathFunction f of
             None \<Rightarrow> (Inl (TypeError f), w1)
           | Some g \<Rightarrow> (Inr (g v), w1)))"

fun evalAnswer :: "source \<Rightarrow> bindings \<Rightarrow> world \<Rightarrow> (error + jsval) \<times> world" where
  "evalAnswer Malformed b w = (Inl SyntaxError, w)"
| "evalAnswer (Text s) b w = (Inr (VStr s), w)"
| "evalAnswer (Arith e) b w =
     (case evalExpr b e w of
        (Inl err, w1) \<Rightarrow> (Inl err, w1)
      | (Inr v, w1) \<Rightarrow> (Inr (VNum v), w1))"

definition chooseCorrectIndex ::
  "host \<Rightarrow> problem \<Rightarrow> bindings \<Rightarrow> world \<Rightarrow> (error + choice) \<times> world" where
  "chooseCorrectIndex h p b w =
     (case evalAnswer (answerExpr p) b w of
        (Inl err, w1) \<Rightarrow> (Inl err, w1)
      | (Inr answer, w1) \<Rightarrow> (Inr (matchOption h p answer), w1))"

section \<open>Assembling a variant\<close>





text \<open>The bindings that \<open>ExamView\<close> draws for the problems of a bank, in bank order.\<close>

fun bankBindings :: "problem list \<Rightarrow> rng \<Rightarrow> bindings list" where
  "bankBindings [] rng0 = []"
| "bankBindings (p # ps) rng0 =
     (let (r, rng1) = rand rng0
      in generateBindings p (jfloor (jmul r (Fin 1000000000))) # bankBindings ps rng1)"

section \<open>The service worker\<close>

text \<open>
  \<^verbatim>\<open>
  let currentExamText = null;
  self.addEventListener('message', async (event) => {
    const { type, text } = event.data || {};
    if (type === 'setExamData') {
      try {
        JSON.parse(text);
        currentExamText = text;
        event.ports[0] && event.ports[0].postMessage({ ok: true });
      } catch (e) {
        event.ports[0] && event.ports[0].postMessage({ ok: false, error: e.message });
      }
    } else if (type === 'claim') {
      self.clients.claim();
    }
  });
  \<close>
  \<open>JSON.parse\<close> belongs to the host and is a parameter: it gives \<open>Inl msg\<close> where the
  host throws an error with that message, and \<open>Inr ()\<close> where it returns (the parsed
  value is dropped). The state of the worker is the stored text; the effect of the
  handler on the outside is the list of messages it posts, each with the port it is
  posted to.
\<close>

type_synonym json_parse = "string \<Rightarrow> string + unit"

datatype reply = Ok | Failed string

record msg_data =
  mtype :: string
  mtext :: string

record event =
  data :: "msg_data option"
  ports :: "nat list"

definition postToFirst :: "nat list \<Rightarrow> reply \<Rightarrow> (nat \<times> reply) list" where
  "postToFirst ps r = (case ps of [] \<Rightarrow> [] | port # _ \<Rightarrow> [(port, r)])"

definition onMessage ::
  "json_parse \<Rightarrow> event \<Rightarrow> string option \<Rightarrow> string option \<times> (nat \<times> reply) list" where
  "onMessage parse ev currentExamText =
     (case data ev of
        None \<Rightarrow> (currentExamText, [])
      | Some d \<Rightarrow>
          if mtype d = ''setExamData'' then
            (case parse (mtext d) of
               Inr _ \<Rightarrow> (Some (mtext d), postToFirst (ports ev) Ok)
             | Inl msg \<Rightarrow> (currentExamText, postToFirst (ports ev) (Failed msg)))
          else (currentExamText, []))"

text \<open>A host parser for the examples: it accepts the empty object and rejects the rest.\<close>

definition sampleParse :: json_parse where
  "sampleParse t = (if t = ''{}'' then Inr () else Inl ''Unexpected token'')"

section \<open>Predicates used in the statements\<close>





section \<open>Example problems\<close>

text \<open>
  A host and an ambient state for the examples (the examples reach neither function of
  the host), and problems: a parameter whose range is reversed, two parameters whose
  ranges are single points, in either order, an answer expression that calls
  \<open>Math.random()\<close>, and one that refers to an undefined name.
\<close>

definition reversedRange :: problem where
  "reversedRange =
     \<lparr>pid = ''rev'', stem = ''R = {{R}}'',
      params = [\<lparr>name = ''R'', minv = Fin 10, maxv = Fin 4, stepv = Some (Fin 1)\<rparr>],
      options = [''6''], answerExpr = Arith (Var ''R''), selectRule = None\<rparr>"










section \<open>Rounding to a double\<close>

lemma ilog2_ge1:
  assumes "1 \<le> x"
  shows "2 powi ilog2 x \<le> x \<and> x < 2 powi (ilog2 x + 1)"
proof -
  from assms have m: "0 < \<lfloor>x\<rfloor>" by simp
  define k where "k = nat (bitlen \<lfloor>x\<rfloor> - 1)"
  have L: "bitlen \<lfloor>x\<rfloor> = int k + 1" using m by (simp add: k_def bitlen_alt_def)
  have b: "(2::int) ^ k \<le> \<lfloor>x\<rfloor>" "\<lfloor>x\<rfloor> < (2::int) ^ (k + 1)"
    using bitlen_bounds[OF m] unfolding L by (simp_all add: nat_add_distrib)
  have "(of_int ((2::int) ^ k) :: rat) \<le> of_int \<lfloor>x\<rfloor>" using b(1) by (simp only: of_int_le_iff)
  also have "\<dots> \<le> x" by simp
  finally have lo: "(2::rat) ^ k \<le> x" by simp
  have "\<lfloor>x\<rfloor> + 1 \<le> (2::int) ^ (k + 1)" using b(2) by simp
  then have "(of_int (\<lfloor>x\<rfloor> + 1) :: rat) \<le> of_int ((2::int) ^ (k + 1))" by (simp only: of_int_le_iff)
  moreover have "x < of_int (\<lfloor>x\<rfloor> + 1)" by linarith
  ultimately have hi: "x < (2::rat) ^ (k + 1)" by simp
  have e: "ilog2 x = int k" using assms by (simp add: ilog2_def L)
  show ?thesis using lo hi by (simp add: e power_int_def nat_add_distrib)
qed

lemma ilog2_lt1:
  assumes "0 < x" "x < 1"
  shows "2 powi ilog2 x \<le> x \<and> x < 2 powi (ilog2 x + 1)"
proof -
  define c where "c = \<lceil>1 / x\<rceil>"
  have y: "1 < 1 / x" using assms by simp
  then have c2: "2 \<le> c" unfolding c_def by linarith
  then have m: "0 < c - 1" by simp
  define k where "k = nat (bitlen (c - 1) - 1)"
  have L: "bitlen (c - 1) = int k + 1" using m by (simp add: k_def bitlen_alt_def)
  have b: "(2::int) ^ k \<le> c - 1" "c - 1 < (2::int) ^ (k + 1)"
    using bitlen_bounds[OF m] unfolding L by (simp_all add: nat_add_distrib)
  have e: "ilog2 x = - (int k + 1)" using assms L by (simp add: ilog2_def c_def)
  have "c \<le> (2::int) ^ (k + 1)" using b(2) by simp
  then have "(of_int c :: rat) \<le> of_int ((2::int) ^ (k + 1))" by (simp only: of_int_le_iff)
  moreover have "1 / x \<le> of_int c" unfolding c_def by linarith
  ultimately have "1 / x \<le> (2::rat) ^ (k + 1)" by simp
  then have lo: "1 / (2::rat) ^ (k + 1) \<le> x" using assms(1)
    by (simp add: field_simps)
  have "(of_int ((2::int) ^ k) :: rat) \<le> of_int (c - 1)" using b(1) by (simp only: of_int_le_iff)
  moreover have "of_int (c - 1) < 1 / x" unfolding c_def by linarith
  ultimately have "(2::rat) ^ k < 1 / x" by simp
  then have hi: "x < 1 / (2::rat) ^ k" using assms(1) by (simp add: field_simps)
  have p1: "(2::rat) powi (- (int k + 1)) = 1 / 2 ^ (k + 1)"
    by (simp add: power_int_def nat_add_distrib field_simps)
  have p2: "(2::rat) powi (- (int k + 1) + 1) = 1 / 2 ^ k"
    by (simp add: power_int_def field_simps)
  show ?thesis using lo hi unfolding e p1 p2 by simp
qed

lemma ilog2_bounds:
  assumes "0 < x"
  shows "2 powi ilog2 x \<le> x" "x < 2 powi (ilog2 x + 1)"
  using ilog2_ge1[of x] ilog2_lt1[of x] assms by (cases "1 \<le> x"; simp)+

lemma two_powi_mono: "(a::int) \<le> b \<Longrightarrow> (2::rat) powi a \<le> 2 powi b"
  by (rule power_int_increasing) simp_all

lemma two_powi_less_imp: "(2::rat) powi a < 2 powi b \<Longrightarrow> a < b"
  using two_powi_mono[of b a] by (cases "a < b") auto

lemma ilog2_eqI:
  assumes "2 powi e \<le> x" "x < 2 powi (e + 1)"
  shows "ilog2 x = e"
proof -
  have "(0::rat) < 2 powi e" by (simp add: zero_less_power_int)
  then have x: "0 < x" using assms(1) by (rule order_less_le_trans)
  have "2 powi e < (2::rat) powi (ilog2 x + 1)" using assms(1) ilog2_bounds(2)[OF x] by simp
  then have 1: "e < ilog2 x + 1" by (rule two_powi_less_imp)
  have "2 powi ilog2 x < (2::rat) powi (e + 1)" using assms(2) ilog2_bounds(1)[OF x] by simp
  then have 2: "ilog2 x < e + 1" by (rule two_powi_less_imp)
  from 1 2 show ?thesis by simp
qed

lemma round_half_even_of_int [simp]: "round_half_even (of_int n) = n"
  by (simp add: round_half_even_def)

lemma round_half_even_error: "\<bar>of_int (round_half_even y) - y\<bar> \<le> 1 / 2"
proof -
  have "0 \<le> y - of_int \<lfloor>y\<rfloor>" "y - of_int \<lfloor>y\<rfloor> < 1" by linarith+
  then show ?thesis
    unfolding round_half_even_def Let_def by (auto simp: abs_le_iff)
qed

lemma two_powi_pos [simp]: "0 < (2::rat) powi e"
  by (simp add: zero_less_power_int)

lemma two_powi_add: "(2::rat) powi (a + b) = 2 powi a * 2 powi b"
  by (simp add: power_int_add)

lemma two_powi_nat: "0 \<le> e \<Longrightarrow> (2::rat) powi e = of_int (2 ^ nat e)"
  by (simp add: power_int_def)

lemma rnd_unfold:
  "x \<noteq> 0 \<Longrightarrow> rnd x =
     (let y = of_int (round_half_even (x / 2 powi (rexp x - 52))) * 2 powi (rexp x - 52)
      in if 2 ^ 1024 \<le> y then PInf else if y \<le> - (2 ^ 1024) then NInf else Fin y)"
  by (simp add: rnd_def Let_def)

lemma rexp_le:
  assumes "x \<noteq> 0" "\<bar>x\<bar> < 2 powi (j + 1)" "- 1022 \<le> j"
  shows "rexp x \<le> j"
proof -
  have x: "0 < \<bar>x\<bar>" using assms(1) by simp
  have "2 powi ilog2 \<bar>x\<bar> < (2::rat) powi (j + 1)"
    using ilog2_bounds(1)[OF x] assms(2) by simp
  then have "ilog2 \<bar>x\<bar> < j + 1" by (rule two_powi_less_imp)
  then show ?thesis using assms(3) by (simp add: rexp_def)
qed

lemma rnd_exact:
  assumes x: "x = of_int m * 2 powi j" and m: "\<bar>m\<bar> < 2 ^ 53" and j: "- 1074 \<le> j"
    and b: "\<bar>x\<bar> < 2 ^ 1024"
  shows "rnd x = Fin x"
proof (cases "x = 0")
  case True
  then show ?thesis by (simp add: rnd_def)
next
  case False
  have "\<bar>x\<bar> = of_int \<bar>m\<bar> * 2 powi j" by (simp add: x abs_mult)
  also have "\<dots> < of_int (2 ^ 53) * 2 powi j"
    using m by (intro mult_strict_right_mono) (simp_all only: of_int_less_iff two_powi_pos)
  also have "\<dots> = 2 powi (j + 52 + 1)"
  proof -
    have "(2::rat) powi (j + 52 + 1) = 2 powi j * 2 powi 53" by (simp add: power_int_add)
    then show ?thesis by simp
  qed
  finally have "\<bar>x\<bar> < 2 powi (j + 52 + 1)" .
  then have e: "rexp x \<le> j + 52" using False j by (intro rexp_le) simp_all
  define d where "d = j + 52 - rexp x"
  have d: "0 \<le> d" using e by (simp add: d_def)
  have "2 powi j / (2::rat) powi (rexp x - 52) = 2 powi (j - (rexp x - 52))"
    by (rule power_int_diff[symmetric]) simp
  also have "j - (rexp x - 52) = d" by (simp add: d_def)
  also have "2 powi d = (of_int (2 ^ nat d) :: rat)" using d by (rule two_powi_nat)
  finally have r: "2 powi j / (2::rat) powi (rexp x - 52) = of_int (2 ^ nat d)" .
  have "x / 2 powi (rexp x - 52) = of_int m * (2 powi j / 2 powi (rexp x - 52))" by (simp add: x)
  also have "\<dots> = of_int (m * 2 ^ nat d)" unfolding r by simp
  finally have q: "x / 2 powi (rexp x - 52) = of_int (m * 2 ^ nat d)" .
  have y: "of_int (round_half_even (x / 2 powi (rexp x - 52))) * 2 powi (rexp x - 52) = x"
    unfolding q round_half_even_of_int unfolding q[symmetric] by simp
  have "\<not> 2 ^ 1024 \<le> x" "\<not> x \<le> - (2 ^ 1024)" using b by (simp_all add: abs_less_iff)
  then show ?thesis using False by (simp add: rnd_unfold y Let_def)
qed

lemma rnd_of_int: "\<bar>m\<bar> < 2 ^ 53 \<Longrightarrow> rnd (of_int m) = Fin (of_int m)"
proof -
  assume m: "\<bar>m\<bar> < 2 ^ 53"
  then have "\<bar>m\<bar> < 2 ^ 1024" by (rule order_less_trans) simp
  then have "(of_int \<bar>m\<bar> :: rat) < of_int (2 ^ 1024)" by (simp only: of_int_less_iff)
  then have "\<bar>of_int m :: rat\<bar> < 2 ^ 1024" by simp
  then show ?thesis using m by (intro rnd_exact[where m = m and j = 0]) simp_all
qed

lemma rexp_normal:
  assumes "2 powi (- 1022) \<le> \<bar>x\<bar>"
  shows "rexp x = ilog2 \<bar>x\<bar>"
proof -
  have x: "0 < \<bar>x\<bar>" using assms two_powi_pos[of "- 1022"] by (rule_tac order_less_le_trans)
  have "2 powi (- 1022) < (2::rat) powi (ilog2 \<bar>x\<bar> + 1)"
    using assms ilog2_bounds(2)[OF x] by (rule order_le_less_trans)
  then have "- 1022 < ilog2 \<bar>x\<bar> + 1" by (rule two_powi_less_imp)
  then show ?thesis by (simp add: rexp_def)
qed

lemma rnd_error:
  assumes lo: "2 powi (- 1022) \<le> \<bar>x\<bar>" and hi: "\<bar>x\<bar> < 2 ^ 1023"
  shows "\<exists>y. rnd x = Fin y \<and> \<bar>y - x\<bar> \<le> \<bar>x\<bar> / 2 ^ 53"
proof -
  have x: "0 < \<bar>x\<bar>" using lo two_powi_pos[of "- 1022"] by (rule_tac order_less_le_trans)
  then have x0: "x \<noteq> 0" by simp
  define e where "e = rexp x"
  define u :: rat where "u = 2 powi (e - 52)"
  define y where "y = of_int (round_half_even (x / u)) * u"
  have e: "e = ilog2 \<bar>x\<bar>" unfolding e_def using lo by (rule rexp_normal)
  have u: "0 < u" by (simp add: u_def)
  have "\<bar>y - x\<bar> = \<bar>of_int (round_half_even (x / u)) - x / u\<bar> * u"
  proof -
    have "y - x = (of_int (round_half_even (x / u)) - x / u) * u"
      using u by (simp add: y_def field_simps)
    then show ?thesis using u by (simp add: abs_mult)
  qed
  also have "\<dots> \<le> 1 / 2 * u"
    using round_half_even_error[of "x / u"] u by (intro mult_right_mono) simp_all
  also have "1 / 2 * u = 2 powi e / 2 ^ 53"
  proof -
    have "(2::rat) powi (e - 52) = 2 powi e / 2 powi 52" by (rule power_int_diff) simp
    then show ?thesis by (simp add: u_def)
  qed
  also have "\<dots> \<le> \<bar>x\<bar> / 2 ^ 53"
    using ilog2_bounds(1)[OF x] by (simp add: e divide_right_mono)
  finally have err: "\<bar>y - x\<bar> \<le> \<bar>x\<bar> / 2 ^ 53" .
  have "\<bar>x\<bar> / 2 ^ 53 \<le> \<bar>x\<bar>" using x by (simp add: field_simps)
  with err have "\<bar>y\<bar> \<le> 2 * \<bar>x\<bar>" by linarith
  also have "\<dots> < 2 * 2 ^ 1023" using hi by simp
  finally have "\<bar>y\<bar> < 2 ^ 1024" by simp
  then have "\<not> 2 ^ 1024 \<le> y" "\<not> y \<le> - (2 ^ 1024)" by (simp_all add: abs_less_iff)
  then have "rnd x = Fin y"
    using x0 by (simp add: rnd_unfold Let_def y_def u_def e_def)
  with err show ?thesis by blast
qed

lemma rnd_eval:
  assumes "2 powi e \<le> \<bar>x\<bar>" "\<bar>x\<bar> < 2 powi (e + 1)" "- 1022 \<le> e" "e \<le> 1021"
    and "round_half_even (x / 2 powi (e - 52)) = n"
  shows "rnd x = Fin (of_int n * 2 powi (e - 52))"
proof -
  have i: "ilog2 \<bar>x\<bar> = e" using assms(1,2) by (rule ilog2_eqI)
  have "(2::rat) powi (- 1022) \<le> 2 powi e" using assms(3) by (rule two_powi_mono)
  then have lo: "2 powi (- 1022) \<le> \<bar>x\<bar>" using assms(1) by (rule order_trans)
  then have r: "rexp x = e" using i by (simp add: rexp_normal)
  have "(2::rat) powi (e + 1) \<le> 2 powi 1022" using assms(4) by (intro two_powi_mono) simp
  with assms(2) have "\<bar>x\<bar> < 2 powi 1022" by (rule order_less_le_trans)
  then have hi: "\<bar>x\<bar> < 2 ^ 1023" by (rule order_less_trans) simp
  from rnd_error[OF lo hi] obtain y where y: "rnd x = Fin y" by blast
  have x0: "x \<noteq> 0" using lo two_powi_pos[of "- 1022"] by auto
  show ?thesis using y x0 unfolding rnd_unfold[OF x0] r assms(5) Let_def
    by (auto split: if_splits)
qed

lemma rhe_near: "\<bar>y - of_int n\<bar> < 1 / 2 \<Longrightarrow> round_half_even y = n"
proof -
  assume a: "\<bar>y - of_int n\<bar> < 1 / 2"
  from a have c: "of_int n - 1 / 2 < y" "y < of_int n + 1 / 2"
    unfolding abs_less_iff by linarith+
  then have b: "of_int (n - 1) \<le> y" "y < of_int (n + 1)" by simp_all
  have "n - 1 \<le> \<lfloor>y\<rfloor>" using b(1) by (simp only: le_floor_iff)
  moreover have "\<lfloor>y\<rfloor> < n + 1" using b(2) by (simp only: floor_less_iff)
  ultimately have "\<lfloor>y\<rfloor> = n \<or> \<lfloor>y\<rfloor> = n - 1" by linarith
  then show ?thesis
  proof
    assume f: "\<lfloor>y\<rfloor> = n"
    show ?thesis using c unfolding round_half_even_def Let_def f by auto
  next
    assume f: "\<lfloor>y\<rfloor> = n - 1"
    have "y - of_int (n - 1) > 1 / 2" using c by simp
    then show ?thesis using c unfolding round_half_even_def Let_def f by auto
  qed
qed

lemma rhe_tie: "y = of_int n + 1 / 2 \<Longrightarrow> round_half_even y = (if even n then n else n + 1)"
proof -
  assume y: "y = of_int n + 1 / 2"
  have "\<lfloor>y\<rfloor> = n" unfolding y by linarith
  then show ?thesis by (simp add: round_half_even_def Let_def y)
qed





lemma of_int_ge1: "0 < (k::int) \<Longrightarrow> (1::rat) \<le> of_int k"
  by simp

lemma of_int_le_pred: "(r::int) < s \<Longrightarrow> (of_int r :: rat) \<le> of_int s - 1"
proof -
  assume "r < s"
  then have "r \<le> s - 1" by simp
  then have "(of_int r :: rat) \<le> of_int (s - 1)" by (simp only: of_int_le_iff)
  then show ?thesis by simp
qed

lemma jfloor_jdiv_int:
  assumes d: "\<bar>d\<bar> < 2 ^ 53" and s: "0 < s" "s < 2 ^ 53"
  shows "jfloor (jdiv (Fin (of_int d)) (Fin (of_int s))) = Fin (of_int (d div s))"
proof -
  define q :: rat where "q = of_int d / of_int s"
  define m where "m = d div s"
  have sr: "(0::rat) < of_int s" using s by simp
  have aq: "\<bar>q\<bar> = \<bar>of_int d\<bar> / of_int s" using sr by (simp add: q_def abs_divide)
  have dlt: "\<bar>of_int d :: rat\<bar> < 2 ^ 53"
  proof -
    have "(of_int \<bar>d\<bar> :: rat) < of_int (2 ^ 53)" using d by (simp only: of_int_less_iff)
    then show ?thesis by simp
  qed
  have "(1::rat) \<le> of_int s" using s(1) by (rule of_int_ge1)
  then have "1 * \<bar>of_int d :: rat\<bar> \<le> of_int s * \<bar>of_int d\<bar>"
    by (intro mult_right_mono) simp_all
  then have "\<bar>q\<bar> \<le> \<bar>of_int d\<bar>" unfolding aq using sr
    by (simp add: field_simps)
  then have q53: "\<bar>q\<bar> < 2 ^ 53" using dlt by simp
  show ?thesis
  proof (cases "s dvd d")
  case True
  then have q: "q = of_int m" using s by (auto simp: q_def m_def)
  have "(of_int \<bar>m\<bar> :: rat) < of_int (2 ^ 53)" using q53 by (simp add: q)
  then have "\<bar>m\<bar> < 2 ^ 53" by (simp only: of_int_less_iff)
  then show ?thesis using s q by (simp add: rnd_of_int q_def m_def)
next
  case False
  define r where "r = d mod s"
  have "r \<noteq> 0" using False by (simp add: r_def dvd_eq_mod_eq_0)
  moreover have "0 \<le> r" "r < s" using s(1) by (simp_all add: r_def)
  ultimately have r: "0 < r" "r < s" by simp_all
  have dm: "d = m * s + r" by (simp add: m_def r_def)
  have q: "q = of_int m + of_int r / of_int s"
    using sr by (simp add: q_def dm field_simps)
  have "(1::rat) \<le> of_int r" using r(1) by (rule of_int_ge1)
  then have lo: "of_int m + 1 / of_int s \<le> q" using sr by (simp add: q divide_right_mono)
  have "(of_int r :: rat) \<le> of_int s - 1" using r(2) by (rule of_int_le_pred)
  then have "of_int r / (of_int s :: rat) \<le> (of_int s - 1) / of_int s" using sr by (simp add: divide_right_mono)
  also have "\<dots> = 1 - 1 / of_int s" using sr by (simp add: field_simps)
  finally have hi: "q \<le> of_int m + 1 - 1 / of_int s" by (simp add: q)
  have d0: "d \<noteq> 0" using False by auto
  then have "(1::rat) \<le> of_int \<bar>d\<bar>" by (intro of_int_ge1) simp
  then have d1: "(1::rat) \<le> \<bar>of_int d\<bar>" by simp
  have slt: "(of_int s :: rat) < 2 ^ 53"
  proof -
    have "(of_int s :: rat) < of_int (2 ^ 53)" using s(2) by (simp only: of_int_less_iff)
    then show ?thesis by simp
  qed
  have "1 / 2 ^ 53 < 1 / (of_int s :: rat)" using slt sr by (simp add: field_simps)
  also have "\<dots> \<le> \<bar>q\<bar>" using d1 sr by (simp add: aq divide_right_mono)
  finally have "1 / 2 ^ 53 < \<bar>q\<bar>" .
  moreover have "(2::rat) powi (- 1022) \<le> 1 / 2 ^ 53" by (simp add: power_int_minus field_simps)
  ultimately have qlo: "2 powi (- 1022) \<le> \<bar>q\<bar>" by simp
  have qhi: "\<bar>q\<bar> < 2 ^ 1023" using q53 by (rule order_less_trans) simp
  from rnd_error[OF qlo qhi] obtain y where y: "rnd q = Fin y" "\<bar>y - q\<bar> \<le> \<bar>q\<bar> / 2 ^ 53"
    by blast
  have "\<bar>q\<bar> / 2 ^ 53 < 1 / of_int s"
    unfolding aq using dlt sr by (simp add: field_simps)
  with y(2) have e: "\<bar>y - q\<bar> < 1 / of_int s" by simp
  have "of_int m < y" "y < of_int m + 1" using e lo hi by (simp_all add: abs_less_iff)
  then have "\<lfloor>y\<rfloor> = m" by (simp add: floor_eq_iff)
  then show ?thesis using s y(1) by (simp add: q_def m_def)
qed
qed

lemma rnd_udiv:
  assumes "w < 2 ^ 53"
  shows "rnd (of_nat w / 2 ^ 32) = Fin (of_nat w / 2 ^ 32)"
proof -
  have x: "(of_nat w :: rat) / 2 ^ 32 = of_int (int w) * 2 powi (- 32)"
    by (simp add: power_int_minus field_simps)
  have "(of_nat w :: rat) < of_nat (2 ^ 53)" using assms by (simp only: of_nat_less_iff)
  then have "(of_nat w :: rat) / 2 ^ 32 < 2 ^ 53" by (simp add: field_simps)
  then have "\<bar>(of_nat w :: rat) / 2 ^ 32\<bar> < 2 ^ 1024" by simp
  moreover have "\<bar>int w\<bar> < 2 ^ 53" using assms by simp
  ultimately show ?thesis by (intro rnd_exact[OF x]) simp_all
qed

section \<open>The generator\<close>

lemma rand_snd: "snd (rand a) = jadd a (Fin 1831565813)"
  by (simp add: rand_def Let_def)

lemma unat32_lt: "unat (w :: 32 word) < 2 ^ 53"
proof -
  have "unat w < 2 ^ 32" using unsigned_less[of w] by simp
  then show ?thesis by (rule order_less_trans) simp
qed

lemma rand_fst:
  "fst (rand a) = Fin (of_nat (unat (mix (toUint32 (snd (rand a))))) / 2 ^ 32)"
  using rnd_udiv[OF unat32_lt] by (simp add: rand_def Let_def)

lemma rng_after_Suc: "rng_after (Suc n) a = snd (rand (rng_after n a))"
  by (induction n arbitrary: a) simp_all

lemma rng_after_exact:
  assumes "- (2 ^ 53) < k" and "k + int n * 1831565813 < 2 ^ 53"
  shows "rng_after n (Fin (of_int k)) = Fin (of_int (k + int n * 1831565813))"
  using assms
proof (induction n)
  case 0
  then show ?case by simp
next
  case (Suc n)
  have s: "rng_after n (Fin (of_int k)) = Fin (of_int (k + int n * 1831565813))"
    using Suc by simp
  have "\<bar>k + int n * 1831565813 + 1831565813\<bar> < 2 ^ 53" using Suc.prems by simp
  then have "rnd (of_int (k + int n * 1831565813 + 1831565813)) =
      Fin (of_int (k + int n * 1831565813 + 1831565813))" by (rule rnd_of_int)
  then show ?case
    unfolding rng_after_Suc s rand_snd by (simp add: algebra_simps)
qed

lemma toUint32_of_int: "toUint32 (Fin (of_int k)) = word_of_int k"
  by simp

lemma draw_spec:
  assumes "- (2 ^ 53) < k" and "k + (int n + 1) * 1831565813 < 2 ^ 53"
  shows "draw (Fin (of_int k)) n = Fin (spec_draw (word_of_int k) n)"
proof -
  have "rng_after (Suc n) (Fin (of_int k)) = Fin (of_int (k + int (Suc n) * 1831565813))"
    using assms by (intro rng_after_exact) (simp_all add: algebra_simps)
  then have s: "snd (rand (rng_after n (Fin (of_int k)))) = Fin (of_int (k + (int n + 1) * 1831565813))"
    unfolding rng_after_Suc by (simp add: algebra_simps)
  have w: "(word_of_int (k + (int n + 1) * 1831565813) :: 32 word) = word_of_int k + (of_nat n + 1) * 1831565813"
    by simp
  show ?thesis
    unfolding draw_def mulberry32_def rand_fst s toUint32_of_int spec_draw_def spec_word_def w ..
qed

lemma rnd_first_inexact: "rnd 9007199260973067 = Fin 9007199260973068"
  using rnd_eval[of 53 9007199260973067 4503599630486534]
    rhe_tie[of "9007199260973067 / 2" 4503599630486533]
  by simp

text \<open>
  C8 at the failing input: with seed 0 the state of the closure reaches
  \<open>4917758 * 0x6D2B79F5\<close> after 4917758 calls, the next addition exceeds \<open>2^53\<close> and
  is rounded to the even neighbour, and the call returns another number than the
  generator with the 32-bit state.
\<close>

theorem draw_diverges_from_spec:
  "draw (Fin 0) 4917758 = Fin (2430946484 / 2 ^ 32) \<and> spec_draw 0 4917758 = 3767445004 / 2 ^ 32"
proof -
  have "rng_after 4917758 (Fin (of_int 0)) = Fin (of_int (0 + int 4917758 * 1831565813))"
    by (rule rng_after_exact) simp_all
  then have s: "rng_after 4917758 (Fin 0) = Fin 9007197429407254" by simp
  have a: "snd (rand (Fin 9007197429407254)) = Fin 9007199260973068"
    by (simp add: rand_snd rnd_first_inexact)
  have m1: "mix (word_of_int 9007199260973068) = (2430946484 :: 32 word)"
    by (simp add: mix_def Let_def)
  have "draw (Fin 0) 4917758 = Fin (of_nat (unat (2430946484 :: 32 word)) / 2 ^ 32)"
    unfolding draw_def mulberry32_def s rand_fst a using m1 by simp
  moreover have "spec_word 0 4917758 = 3767445004"
    by (simp add: spec_word_def mix_def Let_def)
  ultimately show ?thesis by (simp add: spec_draw_def)
qed

section \<open>Sampling on integer specifications\<close>

lemma jadd_int:
  "\<bar>x + y\<bar> < 2 ^ 53 \<Longrightarrow> jadd (Fin (of_int x)) (Fin (of_int y)) = Fin (of_int (x + y))"
  using rnd_of_int[of "x + y"] by simp

lemma jsub_int:
  "\<bar>x - y\<bar> < 2 ^ 53 \<Longrightarrow> jsub (Fin (of_int x)) (Fin (of_int y)) = Fin (of_int (x - y))"
  using rnd_of_int[of "x - y"] by (simp add: jsub_def)

lemma jmul_int:
  "\<bar>x * y\<bar> < 2 ^ 53 \<Longrightarrow> jmul (Fin (of_int x)) (Fin (of_int y)) = Fin (of_int (x * y))"
  using rnd_of_int[of "x * y"] by simp

text \<open>The index that a draw selects among \<open>n\<close> candidates: the integer part of
  \<open>w / 2^32 * n\<close>, computed without rounding error for up to \<open>2^21\<close> candidates.\<close>

lemma jfloor_draw_times:
  fixes w :: "32 word"
  assumes "\<bar>n\<bar> \<le> 2 ^ 21"
  shows "jfloor (jmul (Fin (of_nat (unat w) / 2 ^ 32)) (Fin (of_int n))) =
         Fin (of_int ((int (unat w) * n) div 2 ^ 32))"
proof -
  have "unat w < 2 ^ 32" using unsigned_less[of w] by simp
  then have "int (unat w) < int (2 ^ 32)" by (simp only: of_nat_less_iff)
  then have w: "int (unat w) < 2 ^ 32" by simp
  have w0: "0 \<le> int (unat w)" by simp
  have "\<bar>int (unat w) * n\<bar> = int (unat w) * \<bar>n\<bar>" by (simp add: abs_mult)
  also have "\<dots> \<le> int (unat w) * 2 ^ 21" using assms w0 by (intro mult_left_mono)
  also have "\<dots> < 2 ^ 32 * 2 ^ 21" using w by simp
  finally have m: "\<bar>int (unat w) * n\<bar> < 2 ^ 53" by simp
  have x: "(of_nat (unat w) :: rat) / 2 ^ 32 * of_int n = of_int (int (unat w) * n) * 2 powi (- 32)"
    by (simp add: power_int_minus field_simps)
  have "(of_int \<bar>int (unat w) * n\<bar> :: rat) < of_int (2 ^ 53)" using m by (simp only: of_int_less_iff)
  then have "\<bar>of_int (int (unat w) * n) :: rat\<bar> < 2 ^ 53" by simp
  then have "\<bar>of_int (int (unat w) * n) * 2 powi (- 32) :: rat\<bar> < 2 ^ 53"
    by (simp add: power_int_minus abs_mult field_simps)
  then have "\<bar>(of_nat (unat w) :: rat) / 2 ^ 32 * of_int n\<bar> < 2 ^ 1024"
    unfolding x by (rule order_less_trans) simp
  then have "rnd ((of_nat (unat w) :: rat) / 2 ^ 32 * of_int n)
      = Fin ((of_nat (unat w) :: rat) / 2 ^ 32 * of_int n)"
    using m by (intro rnd_exact[OF x]) simp_all
  moreover have "\<lfloor>(of_nat (unat w) :: rat) / 2 ^ 32 * of_int n\<rfloor> = (int (unat w) * n) div 2 ^ 32"
  proof -
    have "(of_nat (unat w) :: rat) / 2 ^ 32 * of_int n = of_int (int (unat w) * n) / of_int (2 ^ 32)"
      by simp
    then show ?thesis by (simp only: floor_divide_of_int_eq)
  qed
  ultimately show ?thesis by simp
qed

text \<open>Integer facts about the selected index.\<close>

lemma index_bounds_pos:
  fixes w n :: int
  assumes "0 \<le> w" "w < 2 ^ 32" "1 \<le> n"
  shows "0 \<le> (w * n) div 2 ^ 32" "(w * n) div 2 ^ 32 \<le> n - 1"
proof -
  have "0 \<le> w * n" using assms by simp
  then show "0 \<le> (w * n) div 2 ^ 32" by (simp add: pos_imp_zdiv_nonneg_iff)
  have "w * n < 2 ^ 32 * n" using assms by (intro mult_strict_right_mono) simp_all
  then have "(w * n) div 2 ^ 32 < n" by (simp add: div_less_iff_less_mult mult.commute)
  then show "(w * n) div 2 ^ 32 \<le> n - 1" by simp
qed

lemma index_bounds_neg:
  fixes w n :: int
  assumes "0 \<le> w" "w < 2 ^ 32" "n \<le> 0"
  shows "n \<le> (w * n) div 2 ^ 32" "(w * n) div 2 ^ 32 \<le> 0"
proof -
  have "w * n \<le> 0" using assms by (simp add: mult_nonneg_nonpos)
  then show "(w * n) div 2 ^ 32 \<le> 0" by (simp add: div_nonpos_pos_le0)
  have "2 ^ 32 * n \<le> w * n" using assms by (intro mult_right_mono_neg) simp_all
  then have "n * 2 ^ 32 \<le> w * n" by (simp add: mult.commute)
  then have "(n * 2 ^ 32) div 2 ^ 32 \<le> (w * n) div 2 ^ 32" by (rule zdiv_mono1) simp
  then show "n \<le> (w * n) div 2 ^ 32" by simp
qed

lemma index_times_step_nonneg:
  fixes w D s :: int
  assumes w: "0 \<le> w" "w < 2 ^ 32" and s: "0 < s" and D: "0 \<le> D"
  defines "k \<equiv> (w * (D div s + 1)) div 2 ^ 32"
  shows "0 \<le> k" "k * s \<le> D"
proof -
  have q: "0 \<le> D div s" using D s by (simp add: pos_imp_zdiv_nonneg_iff)
  then have n: "1 \<le> D div s + 1" by simp
  show k0: "0 \<le> k" unfolding k_def using index_bounds_pos(1)[OF w n] .
  have "k \<le> D div s" unfolding k_def using index_bounds_pos(2)[OF w n] by simp
  then have "k * s \<le> D div s * s" using s by (intro mult_right_mono) simp_all
  also have "\<dots> \<le> D"
  proof -
    have "D div s * s + D mod s = D" by simp
    moreover have "0 \<le> D mod s" using s by simp
    ultimately show ?thesis by linarith
  qed
  finally show "k * s \<le> D" .
qed

lemma index_times_step_neg:
  fixes w D s :: int
  assumes w: "0 \<le> w" "w < 2 ^ 32" and s: "0 < s" and D: "D < 0"
  defines "k \<equiv> (w * (D div s + 1)) div 2 ^ 32"
  shows "k \<le> 0" "D < k * s"
proof -
  have "D div s < 0" using D s by (simp add: neg_imp_zdiv_neg_iff pos_imp_zdiv_neg_iff)
  then have n: "D div s + 1 \<le> 0" by simp
  show "k \<le> 0" unfolding k_def using index_bounds_neg(2)[OF w n] .
  have "D div s + 1 \<le> k" unfolding k_def using index_bounds_neg(1)[OF w n] .
  then have "(D div s + 1) * s \<le> k * s" using s by (intro mult_right_mono) simp_all
  moreover have "D < (D div s + 1) * s"
  proof -
    have "D div s * s + D mod s = D" by simp
    moreover have "D mod s < s" using s by simp
    moreover have "(D div s + 1) * s = D div s * s + s" by (simp add: algebra_simps)
    ultimately show ?thesis by linarith
  qed
  ultimately show "D < k * s" by simp
qed

lemma pickParam_int:
  assumes a: "\<bar>a\<bar> < 2 ^ 52" and b: "\<bar>b\<bar> < 2 ^ 52" and s: "0 < s" "s < 2 ^ 53"
    and n: "\<bar>(b - a) div s + 1\<bar> \<le> 2 ^ 21"
    and st: "stepo = Some (Fin (of_int s)) \<or> stepo = None \<and> s = 1"
  shows "pickParam g (Fin (of_int a)) (Fin (of_int b)) stepo =
     (Fin (of_int (a + (int (unat (mix (toUint32 (snd (rand g))))) * ((b - a) div s + 1)) div 2 ^ 32 * s)),
      snd (rand g))"
proof -
  define w where "w = mix (toUint32 (snd (rand g)))"
  define k where "k = (int (unat w) * ((b - a) div s + 1)) div 2 ^ 32"
  have w0: "0 \<le> int (unat w)" by simp
  have "unat w < 2 ^ 32" using unsigned_less[of w] by simp
  then have "int (unat w) < int (2 ^ 32)" by (simp only: of_nat_less_iff)
  then have w1: "int (unat w) < 2 ^ 32" by simp
  have step: "(case stepo of None \<Rightarrow> Fin 1 | Some x \<Rightarrow> x) = Fin (of_int s)"
    using st by auto
  have D: "\<bar>b - a\<bar> < 2 ^ 53" using a b by simp
  have ks: "\<bar>k * s\<bar> \<le> \<bar>b - a\<bar>" "(0 \<le> b - a \<longrightarrow> 0 \<le> k * s \<and> k * s \<le> b - a)"
      "(b - a < 0 \<longrightarrow> b - a < k * s \<and> k * s \<le> 0)"
  proof -
    show 1: "(0 \<le> b - a \<longrightarrow> 0 \<le> k * s \<and> k * s \<le> b - a)"
    proof
      assume d: "0 \<le> b - a"
      have "0 \<le> k" unfolding k_def by (rule index_times_step_nonneg(1)[OF w0 w1 s(1) d])
      then have "0 \<le> k * s" using s by simp
      moreover have "k * s \<le> b - a" unfolding k_def by (rule index_times_step_nonneg(2)[OF w0 w1 s(1) d])
      ultimately show "0 \<le> k * s \<and> k * s \<le> b - a" by simp
    qed
    show 2: "(b - a < 0 \<longrightarrow> b - a < k * s \<and> k * s \<le> 0)"
    proof
      assume d: "b - a < 0"
      have "k \<le> 0" unfolding k_def by (rule index_times_step_neg(1)[OF w0 w1 s(1) d])
      then have "k * s \<le> 0" using s by (simp add: mult_nonpos_nonneg)
      moreover have "b - a < k * s" unfolding k_def by (rule index_times_step_neg(2)[OF w0 w1 s(1) d])
      ultimately show "b - a < k * s \<and> k * s \<le> 0" by simp
    qed
    from 1 2 show "\<bar>k * s\<bar> \<le> \<bar>b - a\<bar>" by (cases "0 \<le> b - a") simp_all
  qed
  have e1: "jsub (Fin (of_int b)) (Fin (of_int a)) = Fin (of_int (b - a))"
    using D by (rule jsub_int)
  have e2: "jfloor (jdiv (Fin (of_int (b - a))) (Fin (of_int s))) = Fin (of_int ((b - a) div s))"
    using D s by (rule jfloor_jdiv_int)
  have "\<bar>(b - a) div s + 1\<bar> < 2 ^ 53" using n by simp
  then have e3: "jadd (Fin (of_int ((b - a) div s))) (Fin 1) = Fin (of_int ((b - a) div s + 1))"
    using jadd_int[of "(b - a) div s" 1] by simp
  have e4: "fst (rand g) = Fin (of_nat (unat w) / 2 ^ 32)" unfolding w_def by (rule rand_fst)
  have e5: "jfloor (jmul (Fin (of_nat (unat w) / 2 ^ 32)) (Fin (of_int ((b - a) div s + 1)))) = Fin (of_int k)"
    unfolding k_def using n by (rule jfloor_draw_times)
  have "\<bar>k * s\<bar> < 2 ^ 53" using ks(1) D by simp
  then have e6: "jmul (Fin (of_int k)) (Fin (of_int s)) = Fin (of_int (k * s))" by (rule jmul_int)
  have "\<bar>a + k * s\<bar> < 2 ^ 53" using ks(2,3) a b by (cases "0 \<le> b - a") (simp_all, linarith+)
  then have e7: "jadd (Fin (of_int a)) (Fin (of_int (k * s))) = Fin (of_int (a + k * s))"
    by (rule jadd_int)
  have "pickParam g (Fin (of_int a)) (Fin (of_int b)) stepo =
      (jadd (Fin (of_int a))
         (jmul (jfloor (jmul (fst (rand g))
            (jadd (jfloor (jdiv (jsub (Fin (of_int b)) (Fin (of_int a))) (Fin (of_int s)))) (Fin 1))))
          (Fin (of_int s))), snd (rand g))"
    by (simp add: pickParam_def Let_def split_beta step)
  also have "\<dots> = (Fin (of_int (a + k * s)), snd (rand g))"
    by (simp only: e1 e2 e3 e4 e5 e6 e7)
  finally show ?thesis unfolding k_def w_def .
qed

section \<open>Parameter bounds\<close>

lemma rand_int:
  assumes "\<bar>k + 1831565813\<bar> < 2 ^ 53"
  shows "rand (Fin (of_int k)) =
    (Fin (of_nat (unat (mix (word_of_int (k + 1831565813)))) / 2 ^ 32), Fin (of_int (k + 1831565813)))"
proof -
  have s: "snd (rand (Fin (of_int k))) = Fin (of_int (k + 1831565813))"
    using rnd_of_int[OF assms] by (simp add: rand_snd)
  have "fst (rand (Fin (of_int k))) = Fin (of_nat (unat (mix (word_of_int (k + 1831565813)))) / 2 ^ 32)"
    unfolding rand_fst s toUint32_of_int ..
  with s show ?thesis by (simp add: prod_eq_iff)
qed

lemma rand_unit_interval:
  "\<exists>r. fst (rand g) = Fin r \<and> 0 \<le> r \<and> r < 1"
proof -
  define m where "m = unat (mix (toUint32 (snd (rand g))))"
  have "m < 2 ^ 32" unfolding m_def using unsigned_less[of "mix (toUint32 (snd (rand g)))"] by simp
  then have "(of_nat m :: rat) < of_nat (2 ^ 32)" by (simp only: of_nat_less_iff)
  then have "(of_nat m :: rat) / 2 ^ 32 < 1" by simp
  moreover have "0 \<le> (of_nat m :: rat) / 2 ^ 32" by simp
  moreover have "fst (rand g) = Fin (of_nat m / 2 ^ 32)" unfolding m_def by (rule rand_fst)
  ultimately show ?thesis by blast
qed

text \<open>
  C3, as the code has it. For every integer-valued parameter spec with
  \<open>min \<le> max\<close>, \<open>step \<ge> 1\<close>, magnitudes below \<open>2^52\<close> and at most \<open>2^21\<close>
  candidate steps, and for every state of the generator: the draw \<open>r\<close> lies in
  \<open>[0, 1)\<close>, the selected index is \<open>k = floor (r * nSteps)\<close> with
  \<open>nSteps = floor ((max - min) / step) + 1\<close>, and the value \<open>v\<close> that \<open>pickParam\<close>
  returns satisfies \<open>min \<le> v \<le> max\<close>, \<open>v = min + k * step\<close> with \<open>k \<ge> 0\<close>,
  \<open>(v - min) mod step = 0\<close>, and \<open>v = min\<close> when \<open>min = max\<close>. A missing step counts
  as 1.
\<close>

theorem pickParam_integer_spec:
  assumes "\<bar>a\<bar> < 2 ^ 52" and "\<bar>b\<bar> < 2 ^ 52" and "a \<le> b" and "0 < s" and "s < 2 ^ 53"
    and "(b - a) div s + 1 \<le> 2 ^ 21"
    and "stepo = Some (Fin (of_int s)) \<or> stepo = None \<and> s = 1"
  shows "\<exists>r k v. fst (rand g) = Fin r \<and> 0 \<le> r \<and> r < 1
           \<and> k = \<lfloor>r * of_int (\<lfloor>(of_int b - of_int a) / (of_int s :: rat)\<rfloor> + 1)\<rfloor>
           \<and> fst (pickParam g (Fin (of_int a)) (Fin (of_int b)) stepo) = Fin (of_int v)
           \<and> a \<le> v \<and> v \<le> b \<and> 0 \<le> k \<and> v = a + k * s \<and> (v - a) mod s = 0
           \<and> (a = b \<longrightarrow> v = a)"
proof -
  define m where "m = unat (mix (toUint32 (snd (rand g))))"
  define r :: rat where "r = of_nat m / 2 ^ 32"
  define n where "n = (b - a) div s + 1"
  define k where "k = (int m * n) div 2 ^ 32"
  have w0: "0 \<le> int m" by simp
  have "m < 2 ^ 32" unfolding m_def using unsigned_less[of "mix (toUint32 (snd (rand g)))"] by simp
  then have "int m < int (2 ^ 32)" by (simp only: of_nat_less_iff)
  then have w1: "int m < 2 ^ 32" by simp
  have d: "0 \<le> b - a" using assms(3) by simp
  have q0: "0 \<le> (b - a) div s" using d assms(4) by (simp add: pos_imp_zdiv_nonneg_iff)
  then have n1: "\<bar>(b - a) div s + 1\<bar> \<le> 2 ^ 21" using assms(6) by simp
  have r: "fst (rand g) = Fin r" unfolding r_def m_def by (rule rand_fst)
  have r01: "0 \<le> r" "r < 1"
  proof -
    show "0 \<le> r" by (simp add: r_def)
    have "(of_int (int m) :: rat) < of_int (2 ^ 32)" using w1 by (simp only: of_int_less_iff)
    then show "r < 1" by (simp add: r_def)
  qed
  have fl: "\<lfloor>(of_int b - of_int a) / (of_int s :: rat)\<rfloor> = (b - a) div s"
  proof -
    have "(of_int b - of_int a) / (of_int s :: rat) = of_int (b - a) / of_int s" by simp
    then show ?thesis by (simp only: floor_divide_of_int_eq)
  qed
  have kf: "k = \<lfloor>r * of_int (\<lfloor>(of_int b - of_int a) / (of_int s :: rat)\<rfloor> + 1)\<rfloor>"
  proof -
    have "r * of_int n = of_int (int m * n) / of_int (2 ^ 32)" by (simp add: r_def)
    then have "\<lfloor>r * of_int n\<rfloor> = k" unfolding k_def by (simp only: floor_divide_of_int_eq)
    then show ?thesis unfolding fl n_def by simp
  qed
  have v: "fst (pickParam g (Fin (of_int a)) (Fin (of_int b)) stepo) = Fin (of_int (a + k * s))"
    using pickParam_int[OF assms(1,2,4,5) n1 assms(7), of g] unfolding k_def m_def n_def by simp
  have k0: "0 \<le> k" and ks: "k * s \<le> b - a"
    unfolding k_def n_def
    using index_times_step_nonneg[OF w0 w1 assms(4) d] by simp_all
  have lo: "a \<le> a + k * s" using k0 assms(4) by simp
  have hi: "a + k * s \<le> b" using ks by simp
  have eq: "a = b \<longrightarrow> a + k * s = a" using lo hi by auto
  show ?thesis
    using r r01 kf v lo hi k0 eq by (intro exI[of _ r] exI[of _ k] exI[of _ "a + k * s"]) simp
qed

theorem pickParam_integer_spec_witness:
  "\<exists>r k v. fst (rand (mulberry32 (Fin 42))) = Fin r \<and> 0 \<le> r \<and> r < 1
           \<and> k = \<lfloor>r * of_int (\<lfloor>(of_int 24 - of_int 6) / (of_int 2 :: rat)\<rfloor> + 1)\<rfloor>
           \<and> fst (pickParam (mulberry32 (Fin 42)) (Fin (of_int 6)) (Fin (of_int 24)) (Some (Fin (of_int 2))))
               = Fin (of_int v)
           \<and> 6 \<le> v \<and> v \<le> 24 \<and> 0 \<le> k \<and> v = 6 + k * 2 \<and> (v - 6) mod 2 = 0
           \<and> ((6::int) = 24 \<longrightarrow> v = 6)"
  using pickParam_integer_spec[of 6 24 2 "Some (Fin (of_int 2))" "mulberry32 (Fin 42)"]
  by simp

lemma floor_numeral_quotient:
  "\<lfloor>(numeral a :: rat) / numeral b\<rfloor> = numeral a div numeral b"
  using floor_divide_of_int_eq[of "numeral a" "numeral b", where ?'a = rat] by simp

lemma rnd_3_9: "rnd (39 / 10) = Fin (8782019273372467 / 2251799813685248)"
  using rnd_eval[of "1" "(39 / 10)" "8782019273372467"]
    rhe_near[of "(39 / 10) / 2 powi (-51)" 8782019273372467]
  by (simp add: power_int_minus)

lemma rnd_1_3: "rnd (13 / 10) = Fin (5854679515581645 / 4503599627370496)"
  using rnd_eval[of "0" "(13 / 10)" "5854679515581645"]
    rhe_near[of "(13 / 10) / 2 powi (-52)" 5854679515581645]
  by (simp add: power_int_minus)

lemma rand_seed_4: "rand (Fin 4) = (Fin (991746815 / 1073741824), Fin 1831565817)"
proof -
  have "mix (word_of_int (4 + 1831565813)) = (3966987260 :: 32 word)"
    by (simp add: mix_def Let_def)
  then show ?thesis using rand_int[of 4] by simp
qed

text \<open>
  C3 as stated fails on fractional steps, where the double arithmetic rounds: with
  \<open>min = 0\<close>, \<open>max = 3.9\<close>, \<open>step = 1.3\<close> and the first draw of seed 4 (index 3 of
  4), \<open>pickParam\<close> returns \<open>3 * 1.3 = 3.9000000000000004\<close>, which is above \<open>max\<close>
  and is not \<open>min\<close> plus a multiple of \<open>step\<close>.
\<close>

theorem pickParam_above_max_counterexample:
  "fst (pickParam (mulberry32 (Fin 4)) (Fin 0) (rnd (39 / 10)) (Some (rnd (13 / 10))))
     = Fin (2195504818343117 / 562949953421312)
   \<and> rnd (39 / 10) = Fin (8782019273372467 / 2251799813685248)
   \<and> (8782019273372467 / 2251799813685248 :: rat) < 2195504818343117 / 562949953421312"
proof -
  have d1: "jsub (Fin (8782019273372467 / 2251799813685248)) (Fin 0) = Fin (8782019273372467 / 2251799813685248)"
    using rnd_eval[of "1" "(8782019273372467 / 2251799813685248) - 0" "8782019273372467"]
      rhe_near[of "((8782019273372467 / 2251799813685248) - 0) / 2 powi (-51)" "8782019273372467"]
    by (simp add: power_int_minus jsub_def)
  have d2: "jdiv (Fin (8782019273372467 / 2251799813685248)) (Fin (5854679515581645 / 4503599627370496)) = Fin 3"
    using rnd_eval[of "1" "(8782019273372467 / 2251799813685248) / (5854679515581645 / 4503599627370496)" "6755399441055744"]
      rhe_near[of "((8782019273372467 / 2251799813685248) / (5854679515581645 / 4503599627370496)) / 2 powi (-51)" "6755399441055744"]
    by (simp add: power_int_minus jsub_def)
  have d3: "jadd (Fin 3) (Fin 1) = Fin 4"
    using jadd_int[of 3 1] by simp
  have d4: "jmul (Fin (991746815 / 1073741824)) (Fin 4) = Fin (991746815 / 268435456)"
    using rnd_eval[of "1" "(991746815 / 1073741824) * 4" "8319375266283520"]
      rhe_near[of "((991746815 / 1073741824) * 4) / 2 powi (-51)" "8319375266283520"]
    by (simp add: power_int_minus jsub_def)
  have d5: "jmul (Fin 3) (Fin (5854679515581645 / 4503599627370496)) = Fin (2195504818343117 / 562949953421312)"
    using rnd_eval[of "1" "3 * (5854679515581645 / 4503599627370496)" "8782019273372468"]
      rhe_tie[of "(3 * (5854679515581645 / 4503599627370496)) / 2 powi (-51)" "8782019273372467"]
    by (simp add: power_int_minus jsub_def)
  have d6: "jadd (Fin 0) (Fin (2195504818343117 / 562949953421312)) = Fin (2195504818343117 / 562949953421312)"
    using rnd_eval[of "1" "0 + (2195504818343117 / 562949953421312)" "8782019273372468"]
      rhe_near[of "(0 + (2195504818343117 / 562949953421312)) / 2 powi (-51)" "8782019273372468"]
    by (simp add: power_int_minus jsub_def)
  have f0: "jfloor (Fin 3) = Fin 3" by simp
  have f: "jfloor (Fin (991746815 / 268435456)) = Fin 3" by (simp add: floor_numeral_quotient)
  have "fst (pickParam (mulberry32 (Fin 4)) (Fin 0) (rnd (39 / 10)) (Some (rnd (13 / 10))))
     = Fin (2195504818343117 / 562949953421312)"
    unfolding pickParam_def mulberry32_def rnd_3_9 rnd_1_3 rand_seed_4 Let_def
    by (simp only: option.case prod.case d1 d2 f0 d3 d4 f d5 d6 fst_conv)
  then show ?thesis by (simp add: rnd_3_9)
qed

section \<open>Malformed parameter specifications\<close>


lemma bindParams_bound:
  "(\<exists>q \<in> set ps. name q = n \<and> n \<noteq> ''__proto__'') \<or> out n \<noteq> None
     \<Longrightarrow> bindParams ps g out n \<noteq> None"
proof (induction ps arbitrary: g out)
  case Nil
  then show ?case by simp
next
  case (Cons p ps)
  obtain v g1 where pk: "pickParam g (minv p) (maxv p) (stepv p) = (v, g1)" by force
  have "(\<exists>q \<in> set ps. name q = n \<and> n \<noteq> ''__proto__'') \<or> setOwn out (name p) v n \<noteq> None"
    using Cons.prems by (auto simp: setOwn_def)
  then have "bindParams ps g1 (setOwn out (name p) v) n \<noteq> None" by (rule Cons.IH)
  then show ?case by (simp add: pk)
qed

lemma jdiv_zero_not_finite: "\<not> isFinite (jdiv d (Fin 0))"
  by (cases d) (simp_all add: signed_inf_def)

lemma jfloor_not_finite: "\<not> isFinite x \<Longrightarrow> \<not> isFinite (jfloor x)"
  by (cases x) simp_all

lemma jadd_not_finite: "\<not> isFinite x \<Longrightarrow> \<not> isFinite (jadd x y)"
  by (cases x; cases y) simp_all

lemma jmul_not_finite: "\<not> isFinite y \<Longrightarrow> \<not> isFinite (jmul x y)"
  by (cases x; cases y) (simp_all add: signed_inf_def)

lemma jmul_zero_NaN: "\<not> isFinite x \<Longrightarrow> jmul x (Fin 0) = NaN"
  by (cases x) simp_all

lemma jadd_NaN: "jadd x NaN = NaN"
  by (cases x) simp_all

lemma pickParam_step_zero: "fst (pickParam g mn mx (Some (Fin 0))) = NaN"
proof -
  have "\<not> isFinite (jfloor (jmul (fst (rand g))
      (jadd (jfloor (jdiv (jsub mx mn) (Fin 0))) (Fin 1))))"
    by (intro jfloor_not_finite jmul_not_finite jadd_not_finite jdiv_zero_not_finite)
  then have "jmul (jfloor (jmul (fst (rand g))
      (jadd (jfloor (jdiv (jsub mx mn) (Fin 0))) (Fin 1)))) (Fin 0) = NaN"
    by (rule jmul_zero_NaN)
  then show ?thesis
    by (simp add: pickParam_def Let_def split_beta jadd_NaN)
qed

lemma bankBindings_length [simp]: "length (bankBindings bank g) = length bank"
  by (induction bank arbitrary: g) (simp_all add: split_beta Let_def)

lemma bankBindings_nth:
  "j < length bank \<Longrightarrow>
   bankBindings bank g ! j =
     generateBindings (bank ! j) (jfloor (jmul (fst (rand (rng_after j g))) (Fin 1000000000)))"
proof (induction bank arbitrary: g j)
  case Nil
  then show ?case by simp
next
  case (Cons p ps)
  show ?case
  proof (cases j)
    case 0
    then show ?thesis by (simp add: split_beta Let_def)
  next
    case (Suc i)
    then have "i < length ps" using Cons.prems by simp
    then show ?thesis using Suc Cons.IH[of i "snd (rand g)"] by (simp add: split_beta Let_def)
  qed
qed

lemma rand_seed_42: "rand (Fin 42) = (Fin (645430239 / 1073741824), Fin 1831565855)"
proof -
  have "mix (word_of_int (42 + 1831565813)) = (2581720956 :: 32 word)"
    by (simp add: mix_def Let_def)
  then show ?thesis using rand_int[of 42] by simp
qed

text \<open>
  C5, as the code has it. Sampling never fails, whatever the parameter spec:
  \<open>generateBindings\<close> binds every declared name (other than \<open>__proto__\<close>) to a
  number. \<open>pickParam\<close> checks nothing: with \<open>step = 0\<close> it returns \<open>NaN\<close>, and for an
  integer-valued spec with \<open>min > max\<close> and \<open>step \<ge> 1\<close> (magnitudes below \<open>2^52\<close>, at
  most \<open>2^21\<close> steps) it returns a value \<open>v\<close> with \<open>max < v \<le> min\<close>. The bindings of
  the other problems of a bank do not depend on the problem that carries the spec.
\<close>

theorem malformed_spec_sampled_silently:
  "(\<forall>q \<in> set (params p). name q \<noteq> ''__proto__'' \<longrightarrow> generateBindings p seed (name q) \<noteq> None)
   \<and> fst (pickParam g mn mx (Some (Fin 0))) = NaN
   \<and> (\<bar>a\<bar> < 2 ^ 52 \<and> \<bar>b\<bar> < 2 ^ 52 \<and> b < a \<and> 0 < s \<and> s < 2 ^ 53
        \<and> - (2 ^ 21) \<le> (b - a) div s + 1 \<longrightarrow>
      (\<exists>v. fst (pickParam g (Fin (of_int a)) (Fin (of_int b)) (Some (Fin (of_int s)))) = Fin (of_int v)
           \<and> b < v \<and> v \<le> a))
   \<and> (i < length bank \<and> j < length bank \<and> j \<noteq> i \<longrightarrow>
      bankBindings (bank[i := q']) g ! j = bankBindings bank g ! j)"
proof (intro conjI ballI impI)
  fix q assume "q \<in> set (params p)" "name q \<noteq> ''__proto__''"
  then show "generateBindings p seed (name q) \<noteq> None"
    unfolding generateBindings_def by (intro bindParams_bound) blast
next
  show "fst (pickParam g mn mx (Some (Fin 0))) = NaN" by (rule pickParam_step_zero)
next
  assume h: "\<bar>a\<bar> < 2 ^ 52 \<and> \<bar>b\<bar> < 2 ^ 52 \<and> b < a \<and> 0 < s \<and> s < 2 ^ 53
        \<and> - (2 ^ 21) \<le> (b - a) div s + 1"
  define m where "m = unat (mix (toUint32 (snd (rand g))))"
  define k where "k = (int m * ((b - a) div s + 1)) div 2 ^ 32"
  have w0: "0 \<le> int m" by simp
  have "m < 2 ^ 32" unfolding m_def using unsigned_less[of "mix (toUint32 (snd (rand g)))"] by simp
  then have "int m < int (2 ^ 32)" by (simp only: of_nat_less_iff)
  then have w1: "int m < 2 ^ 32" by simp
  have d: "b - a < 0" and s: "0 < s" using h by simp_all
  have "(b - a) div s < 0" using d s by (simp add: pos_imp_zdiv_neg_iff)
  then have n: "\<bar>(b - a) div s + 1\<bar> \<le> 2 ^ 21" using h by simp
  have v: "fst (pickParam g (Fin (of_int a)) (Fin (of_int b)) (Some (Fin (of_int s)))) = Fin (of_int (a + k * s))"
    using pickParam_int[of a b s "Some (Fin (of_int s))" g] h n unfolding k_def m_def by simp
  have "k \<le> 0" and ks: "b - a < k * s"
    unfolding k_def using index_times_step_neg[OF w0 w1 s d] by simp_all
  then have "k * s \<le> 0" using s by (simp add: mult_nonpos_nonneg)
  then have "b < a + k * s \<and> a + k * s \<le> a" using ks by simp
  with v show "\<exists>v. fst (pickParam g (Fin (of_int a)) (Fin (of_int b)) (Some (Fin (of_int s)))) = Fin (of_int v)
           \<and> b < v \<and> v \<le> a" by blast
next
  assume h: "i < length bank \<and> j < length bank \<and> j \<noteq> i"
  then show "bankBindings (bank[i := q']) g ! j = bankBindings bank g ! j"
    by (simp add: bankBindings_nth)
qed

theorem malformed_spec_sampled_silently_witness:
  "generateBindings reversedRange (Fin 42) ''R'' \<noteq> None
   \<and> fst (pickParam (Fin 42) (Fin 10) (Fin 4) (Some (Fin 0))) = NaN
   \<and> (\<exists>v. fst (pickParam (Fin 42) (Fin (of_int 10)) (Fin (of_int 4)) (Some (Fin (of_int 1)))) = Fin (of_int v)
           \<and> 4 < v \<and> v \<le> 10)
   \<and> bankBindings ([reversedRange, reversedRange][0 := reversedRange\<lparr>params := []\<rparr>]) (Fin 42) ! 1
       = bankBindings [reversedRange, reversedRange] (Fin 42) ! 1"
  using malformed_spec_sampled_silently
          [of reversedRange "Fin 42" "Fin 42" "Fin 10" "Fin 4" 10 4 1 0
              "[reversedRange, reversedRange]" 1 "reversedRange\<lparr>params := []\<rparr>"]
  by (simp add: reversedRange_def)

text \<open>
  C5 as stated fails: with \<open>min = 10\<close>, \<open>max = 4\<close>, \<open>step = 1\<close> and seed 42 no error is
  raised and \<open>R\<close> is bound to 6.
\<close>

theorem reversed_range_sampled_counterexample:
  "generateBindings reversedRange (Fin 42) ''R'' = Some (Fin 6)"
proof -
  have "fst (pickParam (Fin 42) (Fin (of_int 10)) (Fin (of_int 4)) (Some (Fin (of_int 1)))) =
      Fin (of_int (10 + (int (unat (mix (toUint32 (snd (rand (Fin 42)))))) * ((4 - 10) div 1 + 1)) div 2 ^ 32 * 1))"
    using pickParam_int[of 10 4 1 "Some (Fin (of_int 1))" "Fin 42"] by simp
  moreover have "mix (toUint32 (snd (rand (Fin 42)))) = (2581720956 :: 32 word)"
    using rand_seed_42 by (simp add: mix_def Let_def)
  ultimately have "fst (pickParam (Fin 42) (Fin 10) (Fin 4) (Some (Fin 1))) = Fin 6" by simp
  then show ?thesis
    by (simp add: generateBindings_def reversedRange_def mulberry32_def split_beta setOwn_def)
qed

section \<open>Order of the parameters\<close>









section \<open>The known answer\<close>

lemma jround_int: "jround (Fin (of_int k)) = Fin (of_int k)"
proof -
  have "\<lfloor>(of_int k :: rat) + 1 / 2\<rfloor> = k" by linarith
  then show ?thesis by simp
qed

lemma pow10_1: "rnd (10 powi 1) = Fin 10"
  using rnd_of_int[of 10] by simp

lemma roundTo_1_1: "roundTo (Fin 1) 1 = Fin 1"
proof -
  have m: "jmul (Fin 1) (Fin 10) = Fin 10" using jmul_int[of 1 10] by simp
  have r: "jround (Fin 10) = Fin 10" using jround_int[of 10] by simp
  have d: "jdiv (Fin 10) (Fin 10) = Fin 1" using rnd_of_int[of 1] by simp
  show ?thesis unfolding roundTo_def Let_def pow10_1 m r d ..
qed

lemma option_0_2: "numericFromOption ''0.2 A'' = Fin (3602879701896397 / 18014398509481984)"
  using rnd_eval[of "-3" "(1 / 5)" "7205759403792794"]
    rhe_near[of "(1 / 5) / 2 powi (-55)" "7205759403792794"]
  by (simp add: numericFromOption_def matchNumber_def matchDigits_def is_digit_def parseFloat_def
      digitsValue_def power_int_minus)

lemma round_0_2: "roundTo (Fin (3602879701896397 / 18014398509481984)) 1 = Fin (3602879701896397 / 18014398509481984)"
proof -
  have m: "jmul (Fin (3602879701896397 / 18014398509481984)) (Fin 10) = Fin 2"
    using rnd_eval[of "1" "(3602879701896397 / 18014398509481984) * 10" "4503599627370496"]
      rhe_near[of "((3602879701896397 / 18014398509481984) * 10) / 2 powi (-51)" "4503599627370496"]
    by (simp add: power_int_minus jsub_def)
  have r: "jround (Fin 2) = Fin 2" using jround_int[of 2] by simp
  have d: "jdiv (Fin 2) (Fin 10) = Fin (3602879701896397 / 18014398509481984)"
    using rnd_eval[of "-3" "2 / 10" "7205759403792794"]
      rhe_near[of "(2 / 10) / 2 powi (-55)" "7205759403792794"]
    by (simp add: power_int_minus jsub_def)
  show ?thesis unfolding roundTo_def Let_def pow10_1 m r d ..
qed

lemma option_0_4: "numericFromOption ''0.4 A'' = Fin (3602879701896397 / 9007199254740992)"
  using rnd_eval[of "-2" "(2 / 5)" "7205759403792794"]
    rhe_near[of "(2 / 5) / 2 powi (-54)" "7205759403792794"]
  by (simp add: numericFromOption_def matchNumber_def matchDigits_def is_digit_def parseFloat_def
      digitsValue_def power_int_minus)

lemma round_0_4: "roundTo (Fin (3602879701896397 / 9007199254740992)) 1 = Fin (3602879701896397 / 9007199254740992)"
proof -
  have m: "jmul (Fin (3602879701896397 / 9007199254740992)) (Fin 10) = Fin 4"
    using rnd_eval[of "2" "(3602879701896397 / 9007199254740992) * 10" "4503599627370496"]
      rhe_near[of "((3602879701896397 / 9007199254740992) * 10) / 2 powi (-50)" "4503599627370496"]
    by (simp add: power_int_minus jsub_def)
  have r: "jround (Fin 4) = Fin 4" using jround_int[of 4] by simp
  have d: "jdiv (Fin 4) (Fin 10) = Fin (3602879701896397 / 9007199254740992)"
    using rnd_eval[of "-2" "4 / 10" "7205759403792794"]
      rhe_near[of "(4 / 10) / 2 powi (-54)" "7205759403792794"]
    by (simp add: power_int_minus jsub_def)
  show ?thesis unfolding roundTo_def Let_def pow10_1 m r d ..
qed

lemma option_0_5: "numericFromOption ''0.5 A'' = Fin (1 / 2)"
  using rnd_eval[of "-1" "(1 / 2)" "4503599627370496"]
    rhe_near[of "(1 / 2) / 2 powi (-53)" "4503599627370496"]
  by (simp add: numericFromOption_def matchNumber_def matchDigits_def is_digit_def parseFloat_def
      digitsValue_def power_int_minus)

lemma round_0_5: "roundTo (Fin (1 / 2)) 1 = Fin (1 / 2)"
proof -
  have m: "jmul (Fin (1 / 2)) (Fin 10) = Fin 5"
    using rnd_eval[of "2" "(1 / 2) * 10" "5629499534213120"]
      rhe_near[of "((1 / 2) * 10) / 2 powi (-50)" "5629499534213120"]
    by (simp add: power_int_minus jsub_def)
  have r: "jround (Fin 5) = Fin 5" using jround_int[of 5] by simp
  have d: "jdiv (Fin 5) (Fin 10) = Fin (1 / 2)"
    using rnd_eval[of "-1" "5 / 10" "4503599627370496"]
      rhe_near[of "(5 / 10) / 2 powi (-53)" "4503599627370496"]
    by (simp add: power_int_minus jsub_def)
  show ?thesis unfolding roundTo_def Let_def pow10_1 m r d ..
qed

lemma option_1_0: "numericFromOption ''1.0 A'' = Fin 1"
  using rnd_of_int[of 1]
  by (simp add: numericFromOption_def matchNumber_def matchDigits_def is_digit_def parseFloat_def
      digitsValue_def)

text \<open>
  C2. For every problem whose options are \<open>["0.2 A","0.4 A","0.5 A","1.0 A","2.0 A"]\<close>,
  whose answer expression is \<open>V / R\<close>, with numeric match mode and rounding precision
  1, evaluated under the bindings \<open>{V: 10, R: 10}\<close>: the evaluated answer is 1 and
  \<open>chooseCorrectIndex\<close> returns the option index 3 (and the rounded answer 1).
\<close>

theorem ohm_known_answer:
  "evalAnswer (Arith (Div (Var ''V'') (Var ''R''))) [''V'' \<mapsto> Fin 10, ''R'' \<mapsto> Fin 10] w
     = (Inr (VNum (Fin 1)), w)
   \<and> chooseCorrectIndex h
       (p\<lparr>options := [''0.2 A'', ''0.4 A'', ''0.5 A'', ''1.0 A'', ''2.0 A''],
          answerExpr := Arith (Div (Var ''V'') (Var ''R'')),
          selectRule := Some \<lparr>match = Numeric, rounding = Some 1\<rparr>\<rparr>)
       [''V'' \<mapsto> Fin 10, ''R'' \<mapsto> Fin 10] w
     = (Inr \<lparr>index = 3, numericAnswer = Some (Fin 1)\<rparr>, w)"
proof -
  have q: "rnd 1 = Fin 1" using rnd_of_int[of 1] by simp
  have e: "evalAnswer (Arith (Div (Var ''V'') (Var ''R''))) [''V'' \<mapsto> Fin 10, ''R'' \<mapsto> Fin 10] w
     = (Inr (VNum (Fin 1)), w)"
    by (simp add: q)
  have n0: "\<not> numericMatch 1 (Fin 1) ''0.2 A''"
    by (simp add: numericMatch_def option_0_2 round_0_2 strict_eq_def)
  have n1: "\<not> numericMatch 1 (Fin 1) ''0.4 A''"
    by (simp add: numericMatch_def option_0_4 round_0_4 strict_eq_def)
  have n2: "\<not> numericMatch 1 (Fin 1) ''0.5 A''"
    by (simp add: numericMatch_def option_0_5 round_0_5 strict_eq_def)
  have n3: "numericMatch 1 (Fin 1) ''1.0 A''"
    by (simp add: numericMatch_def option_1_0 roundTo_1_1 strict_eq_def)
  have "findIndex (numericMatch 1 (Fin 1)) [''0.2 A'', ''0.4 A'', ''0.5 A'', ''1.0 A'', ''2.0 A''] 0 = 3"
    by (simp add: n0 n1 n2 n3)
  then have "matchOption h
       (p\<lparr>options := [''0.2 A'', ''0.4 A'', ''0.5 A'', ''1.0 A'', ''2.0 A''],
          answerExpr := Arith (Div (Var ''V'') (Var ''R'')),
          selectRule := Some \<lparr>match = Numeric, rounding = Some 1\<rparr>\<rparr>) (VNum (Fin 1))
     = \<lparr>index = 3, numericAnswer = Some (Fin 1)\<rparr>"
    by (simp add: matchOption_def roundTo_1_1)
  then show ?thesis using e by (simp add: chooseCorrectIndex_def)
qed

section \<open>The option matcher\<close>






section \<open>Template rendering\<close>

lemmas scan_defs = matchPlaceholder_def is_space_def is_word_def Let_def

lemma digits_small: "digits 10 = ''10''" "digits 5 = ''5''"
  by (simp_all add: digits.simps)

lemma renderTemplate_example:
  "renderTemplate h ''V={{V}}, R={{R}}'' [''V'' \<mapsto> Fin 10, ''R'' \<mapsto> Fin 5] = ''V=10, R=5''"
  by (simp add: renderTemplate_def scan_defs substitute_def getProp_def digits_small)

lemma renderTemplate_spaces:
  "renderTemplate h ''R = {{ R  }} ohm'' [''V'' \<mapsto> Fin 10, ''R'' \<mapsto> Fin 5] = ''R = 5 ohm''"
  by (simp add: renderTemplate_def scan_defs substitute_def getProp_def digits_small)

lemma renderTemplate_absent_name:
  "renderTemplate h ''x{{missing}}y'' [''V'' \<mapsto> Fin 10] = ''xy''"
  by (simp add: renderTemplate_def scan_defs substitute_def getProp_def prototypeFunctions_def)



text \<open>
  C7 at the failing input: \<open>constructor\<close> is not a property of the bindings object,
  but the lookup \<open>bindings[name]\<close> finds it on \<open>Object.prototype\<close>, so the placeholder
  renders as the text of the function \<open>Object\<close> and not as the empty string.
\<close>

theorem renderTemplate_inherited_name:
  "renderTemplate h ''{{constructor}}'' Map.empty = ''function Object() { [native code] }''"
  by (simp add: renderTemplate_def scan_defs substitute_def getProp_def)

section \<open>Determinism\<close>











section \<open>Failing answer expressions\<close>










section \<open>The service worker's message handler\<close>

text \<open>
  C10, as the code has it. For every \<open>setExamData\<close> message: if the text parses, the
  stored text is replaced by the message text and \<open>{ok: true}\<close> is posted to the first
  port of the event when there is one; if parsing throws, the stored text is left
  unchanged and \<open>{ok: false, error}\<close> with the error's message is posted to the first
  port when there is one. An event without a port gets no reply.
\<close>

theorem onMessage_setExamData:
  assumes "data ev = Some d" and "mtype d = ''setExamData''"
  shows "(parse (mtext d) = Inr () \<longrightarrow>
            onMessage parse ev cur =
              (Some (mtext d), case ports ev of [] \<Rightarrow> [] | port # _ \<Rightarrow> [(port, Ok)]))
       \<and> (\<forall>msg. parse (mtext d) = Inl msg \<longrightarrow>
            onMessage parse ev cur =
              (cur, case ports ev of [] \<Rightarrow> [] | port # _ \<Rightarrow> [(port, Failed msg)]))"
  using assms by (simp add: onMessage_def postToFirst_def)

theorem onMessage_setExamData_witness:
  "onMessage sampleParse
     \<lparr>data = Some \<lparr>mtype = ''setExamData'', mtext = ''{}''\<rparr>, ports = [7]\<rparr> (Some ''[]'')
     = (Some ''{}'', [(7, Ok)])
   \<and> onMessage sampleParse
     \<lparr>data = Some \<lparr>mtype = ''setExamData'', mtext = ''{''\<rparr>, ports = [7]\<rparr> (Some ''[]'')
     = (Some ''[]'', [(7, Failed ''Unexpected token'')])"
  using onMessage_setExamData
          [of "\<lparr>data = Some \<lparr>mtype = ''setExamData'', mtext = ''{}''\<rparr>, ports = [7]\<rparr>"
              "\<lparr>mtype = ''setExamData'', mtext = ''{}''\<rparr>" sampleParse "Some ''[]''"]
        onMessage_setExamData
          [of "\<lparr>data = Some \<lparr>mtype = ''setExamData'', mtext = ''{''\<rparr>, ports = [7]\<rparr>"
              "\<lparr>mtype = ''setExamData'', mtext = ''{''\<rparr>" sampleParse "Some ''[]''"]
  by (simp add: sampleParse_def)

text \<open>
  C10 as stated fails for an event that carries no port: the text parses and is stored,
  and nothing is posted back.
\<close>

theorem onMessage_no_port_counterexample:
  "onMessage sampleParse
     \<lparr>data = Some \<lparr>mtype = ''setExamData'', mtext = ''{}''\<rparr>, ports = []\<rparr> None
     = (Some ''{}'', [])"
  by (simp add: onMessage_def postToFirst_def sampleParse_def)

end
